theory Spec2Isabelle
  imports Complex_Main "HOL-Library.Multiset"
begin

section \<open>The vectorized solver of pyNastran: \<^verbatim>\<open>bdf/dev_vectorized/solver/solver.py\<close>\<close>

text \<open>
  The class \<^verbatim>\<open>Solver\<close> keeps its degree-of-freedom sets in attributes of \<^verbatim>\<open>self\<close>.
  Python floats are modelled as \<^typ>\<open>real\<close>, Python ints as \<^typ>\<open>int\<close>, Python lists
  as lists, an attribute that is \<^verbatim>\<open>None\<close> or not yet assigned as \<^const>\<open>None\<close>.
  Calls of \<^verbatim>\<open>self.log\<close> only print and are left out. The attribute \<^verbatim>\<open>Un\<close> is
  named \<open>Un_set\<close> here, \<open>Un\<close> being a reserved token of the logic's syntax.
\<close>

subsection \<open>Exceptions\<close>

datatype error =
    AssertionError string
  | NotImplementedError string
  | IndexError
  | KeyError
  | ValueError
  | TypeError
  | NameError string
  | LinAlgError

subsection \<open>The attributes of \<^verbatim>\<open>Solver.__init__\<close> and of \<^verbatim>\<open>build_dof_sets\<close>\<close>

record dof_state =
  iUsb :: "int list"  Usb :: "real list"
  iUsg :: "int list"  Usg :: "real list"
  Us :: "real list option"  iUs :: "int list option"
  Ump :: "real list"  iUmp :: "int list"  jUmp :: "int list"
  Umr :: "real list"  iUmr :: "int list"  jUmr :: "int list"
  iUm :: "int list option"  jUm :: "int list option"  Um :: "real list option"
  Ub :: "real list"  iUb :: "int list"
  Uc :: "real list"  iUc :: "int list"
  Ue :: "real list"  iUe :: "int list"
  Uj :: "real list"  iUj :: "int list"
  Uk :: "real list"  iUk :: "int list"
  Ulm :: "real list"  iUlm :: "int list"
  Uq :: "real list"  iUq :: "int list"
  Ur :: "real list"  iUr :: "int list"
  Uo :: "real list"  iUo :: "int list"
  Usa :: "real list"  iUsa :: "int list"
  Ul :: "real list option"  iUl :: "int list option"
  Ut :: "real list option"  iUt :: "int list option"
  Ua :: "real list option"  iUa :: "int list option"
  Ud :: "real list option"  iUd :: "int list option"
  Uf :: "real list option"  iUf :: "int list option"
  Ufe :: "real list option"  iUfe :: "int list option"
  Un_set :: "real list option"  iUn :: "int list option"
  Une :: "real list option"  iUne :: "int list option"
  Ug :: "real list option"  iUg :: "int list option"
  Up :: "real list option"  iUp :: "int list option"
  Uks :: "real list option"  iUks :: "int list option"
  Ujs :: "real list option"  iUjs :: "int list option"
  Ufr :: "real list option"  iUfr :: "int list option"
  Uv :: "real list option"  iUv :: "int list option"
  mp_index :: "nat option"

text \<open>The state that \<^verbatim>\<open>__init__\<close> leaves: every list empty, the s- and m-sets \<^verbatim>\<open>None\<close>.\<close>

definition init_state :: dof_state where
  "init_state =
    \<lparr> iUsb = [], Usb = [], iUsg = [], Usg = [], Us = None, iUs = None,
      Ump = [], iUmp = [], jUmp = [], Umr = [], iUmr = [], jUmr = [],
      iUm = None, jUm = None, Um = None,
      Ub = [], iUb = [], Uc = [], iUc = [], Ue = [], iUe = [], Uj = [], iUj = [],
      Uk = [], iUk = [], Ulm = [], iUlm = [], Uq = [], iUq = [], Ur = [], iUr = [],
      Uo = [], iUo = [], Usa = [], iUsa = [],
      Ul = None, iUl = None, Ut = None, iUt = None, Ua = None, iUa = None,
      Ud = None, iUd = None, Uf = None, iUf = None, Ufe = None, iUfe = None,
      Un_set = None, iUn = None, Une = None, iUne = None, Ug = None, iUg = None,
      Up = None, iUp = None, Uks = None, iUks = None, Ujs = None, iUjs = None,
      Ufr = None, iUfr = None, Uv = None, iUv = None, mp_index = None \<rparr>"

subsection \<open>\<^verbatim>\<open>Solver.build_dof_sets\<close>\<close>

text \<open>
  Each assignment of the method, in the order of the source; \<^verbatim>\<open>+\<close> on Python lists
  is concatenation. A later assignment reads the value an earlier one has just stored.
\<close>

definition build_dof_sets :: "dof_state \<Rightarrow> dof_state" where
  "build_dof_sets self =
    (let Us1 = Usb self @ Usg self;      iUs1 = iUsb self @ iUsg self;
         Ul1 = Uc self @ Ulm self;       iUl1 = iUc self @ iUlm self;
         Ut1 = Ul1 @ Ur self;            iUt1 = iUl1 @ iUr self;
         Ua1 = Ut1 @ Uq self;            iUa1 = iUt1 @ iUq self;
         Ud1 = Ua1 @ Ue self;            iUd1 = iUa1 @ iUe self;
         Uf1 = Ua1 @ Uo self;            iUf1 = iUa1 @ iUo self;
         Ufe1 = Uf1 @ Ue self;           iUfe1 = iUf1 @ iUe self;
         Un1 = Uf1 @ Us1;                iUn1 = iUf1 @ iUs1;
         Une1 = Un1 @ Ue self;           iUne1 = iUn1 @ iUe self;
         Um1 = Ump self @ Umr self;      iUm1 = iUmp self @ iUmr self;
         jUm1 = jUmp self @ jUmr self;
         Ug1 = Un1 @ Um1;                iUg1 = iUn1 @ iUm1;
         Up1 = Ug1 @ Ue self;            iUp1 = iUg1 @ iUe self;
         Uks1 = Uk self @ Usa self;      iUks1 = iUk self @ iUsa self;
         Ujs1 = Uj self @ Usa self;      iUjs1 = iUj self @ iUsa self;
         Ufr1 = Uo self @ Ul1;           iUfr1 = iUo self @ iUl1;
         Uv1 = Uo self @ Uc self @ Ur self;
         iUv1 = iUo self @ iUc self @ iUr self
     in self\<lparr> Us := Some Us1, iUs := Some iUs1,
              Ul := Some Ul1, iUl := Some iUl1,
              Ut := Some Ut1, iUt := Some iUt1,
              Ua := Some Ua1, iUa := Some iUa1,
              Ud := Some Ud1, iUd := Some iUd1,
              Uf := Some Uf1, iUf := Some iUf1,
              Ufe := Some Ufe1, iUfe := Some iUfe1,
              Un_set := Some Un1, iUn := Some iUn1,
              Une := Some Une1, iUne := Some iUne1,
              Um := Some Um1, iUm := Some iUm1, jUm := Some jUm1,
              Ug := Some Ug1, iUg := Some iUg1,
              Up := Some Up1, iUp := Some iUp1,
              Uks := Some Uks1, iUks := Some iUks1,
              Ujs := Some Ujs1, iUjs := Some iUjs1,
              Ufr := Some Ufr1, iUfr := Some iUfr1,
              Uv := Some Uv1, iUv := Some iUv1 \<rparr>)"

subsection \<open>\<^verbatim>\<open>Solver.build_nid_component_to_id\<close>\<close>

text \<open>
  The model's grid table is read row by row (\<^verbatim>\<open>model.grid.node_id[ni]\<close>, \<^verbatim>\<open>model.grid.ps[ni]\<close>,
  \<^verbatim>\<open>model.grid.cd\<close>), so it is a list of rows and \<^verbatim>\<open>model.grid.n\<close> is its length;
  \<^verbatim>\<open>model.spoint.spoint\<close> is the collection of scalar point ids and \<^verbatim>\<open>model.spoint.n\<close>
  its size. The dictionary \<^verbatim>\<open>nidComponentToID\<close> is a map from (node id, component).
\<close>

record grid_row =
  node_id :: int
  ps :: int
  cd :: int

record bdf_model =
  grid :: "grid_row list"
  spoint :: "int list"

type_synonym dof_map = "int \<times> int \<rightharpoonup> nat"

text \<open>
  \<^verbatim>\<open>cd = set(model.grid.cd); if cd == 0:\<close> compares a Python set with the int 0.
  Such a comparison is false for every set.
\<close>

definition set_eq_int :: "int list \<Rightarrow> int \<Rightarrow> bool" where
  "set_eq_int s k = False"

text \<open>The loop \<^verbatim>\<open>while ps > 0\<close> over the digits of the PS field of one grid point.\<close>

function ps_loop :: "nat \<Rightarrow> int \<Rightarrow> int list \<Rightarrow> real list \<Rightarrow> int list \<times> real list" where
  "ps_loop i p iUsg1 Usg1 =
     (if p > 0 then
        (let psi = p mod 10;
             j = int i + psi - 1
         in ps_loop i (p div 10) (iUsg1 @ [j]) (Usg1 @ [0]))
      else (iUsg1, Usg1))"
  by pat_completeness auto
termination
  by (relation "measure (\<lambda>(i, p, a, b). nat p)") auto

text \<open>The branch \<^verbatim>\<open>if ps > -1\<close>: the constrained components go to \<^verbatim>\<open>self.iUsg\<close>, \<^verbatim>\<open>self.Usg\<close>.\<close>

definition grid_ps :: "dof_state \<Rightarrow> nat \<Rightarrow> int \<Rightarrow> dof_state" where
  "grid_ps self i p =
     (if p > -1 then
        (let (iUsg1, Usg1) = ps_loop i p [] []
         in self\<lparr>iUsg := iUsg self @ iUsg1, Usg := Usg self @ Usg1\<rparr>)
      else self)"

text \<open>The six assignments \<^verbatim>\<open>nidComponentToID[(nid, c)] = i + c - 1\<close>, in their order.\<close>

definition set_grid_dofs :: "dof_map \<Rightarrow> int \<Rightarrow> nat \<Rightarrow> dof_map" where
  "set_grid_dofs m nid i =
     m((nid, 1) \<mapsto> i, (nid, 2) \<mapsto> i + 1, (nid, 3) \<mapsto> i + 2,
       (nid, 4) \<mapsto> i + 3, (nid, 5) \<mapsto> i + 4, (nid, 6) \<mapsto> i + 5)"

text \<open>\<^verbatim>\<open>for ni in range(model.grid.n)\<close>, threading \<^verbatim>\<open>i\<close>, the dictionary and \<^verbatim>\<open>self\<close>.\<close>

fun grid_loop :: "grid_row list \<Rightarrow> nat \<Rightarrow> dof_map \<Rightarrow> dof_state \<Rightarrow> nat \<times> dof_map \<times> dof_state" where
  "grid_loop [] i m self = (i, m, self)"
| "grid_loop (g # gs) i m self =
     (let nid = node_id g;
          self1 = grid_ps self i (ps g);
          m1 = set_grid_dofs m nid i
      in grid_loop gs (i + 6) m1 self1)"

text \<open>\<^verbatim>\<open>for nid in sorted(model.spoint.spoint)\<close>.\<close>

fun spoint_loop :: "int list \<Rightarrow> nat \<Rightarrow> dof_map \<Rightarrow> nat \<times> dof_map" where
  "spoint_loop [] i m = (i, m)"
| "spoint_loop (nid # nids) i m = spoint_loop nids (i + 1) (m((nid, 1) \<mapsto> i))"

definition build_nid_component_to_id ::
    "dof_state \<Rightarrow> bdf_model \<Rightarrow> error + ((dof_map \<times> nat) \<times> dof_state)" where
  "build_nid_component_to_id self model =
     (if length (grid model) \<noteq> 0 \<and> set_eq_int (remdups (map cd (grid model))) 0
      then Inl (NotImplementedError ''Set cd=0; cd=%s is not supported.'')
      else
        (let (i1, m1, self1) = grid_loop (grid model) 0 Map.empty self;
             (i2, m2) = (if length (spoint model) \<noteq> 0
                         then spoint_loop (sort (spoint model)) i1 m1
                         else (i1, m1))
         in if \<not> i2 > 0 then Inl (AssertionError ''no DOFs'')
            else Inr ((m2, i2),
                      self1\<lparr>mp_index := Some (length (grid model) + length (spoint model))\<rparr>)))"

text \<open>
  The order of the keys that the specification asks for: the grid points in the order of
  the table, each with its components 1 to 6, then the scalar points.
\<close>

definition grid_keys :: "grid_row \<Rightarrow> (int \<times> int) list" where
  "grid_keys g = map (\<lambda>c. (node_id g, c)) [1, 2, 3, 4, 5, 6]"

definition dof_order :: "bdf_model \<Rightarrow> (int \<times> int) list" where
  "dof_order model =
     concat (map grid_keys (grid model)) @ map (\<lambda>nid. (nid, 1)) (sort (spoint model))"

subsection \<open>numpy arrays\<close>

text \<open>
  A one-dimensional array is a list, a two-dimensional array the list of its rows.
  An index out of range raises \<^verbatim>\<open>IndexError\<close>; an index \<open>i\<close> with \<open>-n \<le> i < 0\<close> counts
  from the end.
\<close>

type_synonym vec = "real list"
type_synonym mat = "real list list"

definition np_index :: "nat \<Rightarrow> int \<Rightarrow> nat option" where
  "np_index n i =
     (if 0 \<le> i \<and> i < int n then Some (nat i)
      else if - int n \<le> i \<and> i < 0 then Some (nat (int n + i))
      else None)"

text \<open>\<^verbatim>\<open>K[i, j]\<close> for indices that come from \<^verbatim>\<open>enumerate\<close> and so are not negative.\<close>

definition mat_get :: "mat \<Rightarrow> nat \<Rightarrow> nat \<Rightarrow> error + real" where
  "mat_get K i j = (if i < length K \<and> j < length (K ! i) then Inr (K ! i ! j) else Inl IndexError)"

text \<open>\<^verbatim>\<open>F[ilist]\<close> and \<^verbatim>\<open>K[ilist, :]\<close>: the entries, or rows, at a list of indices.\<close>

definition np_take :: "'a list \<Rightarrow> nat list \<Rightarrow> error + 'a list" where
  "np_take xs ilist =
     (if list_all (\<lambda>i. i < length xs) ilist then Inr (map (\<lambda>i. xs ! i) ilist)
      else Inl IndexError)"

text \<open>\<^verbatim>\<open>K[:, ilist]\<close>: the columns at a list of indices.\<close>

definition np_take_cols :: "mat \<Rightarrow> nat list \<Rightarrow> error + mat" where
  "np_take_cols K ilist =
     (if list_all (\<lambda>row. list_all (\<lambda>j. j < length row) ilist) K
      then Inr (map (\<lambda>row. map (\<lambda>j. row ! j) ilist) K)
      else Inl IndexError)"

text \<open>
  \<^verbatim>\<open>U[ilist] = U2\<close>: the shapes must agree, except that an array of one element is
  broadcast to every index.
\<close>

definition np_set_items :: "vec \<Rightarrow> nat list \<Rightarrow> vec \<Rightarrow> error + vec" where
  "np_set_items U ilist U2 =
     (if \<not> list_all (\<lambda>i. i < length U) ilist then Inl IndexError
      else if length U2 = length ilist then Inr (fold (\<lambda>(i, v) U. U[i := v]) (zip ilist U2) U)
      else if length U2 = 1 then Inr (fold (\<lambda>i U. U[i := hd U2]) ilist U)
      else Inl ValueError)"

subsection \<open>\<^verbatim>\<open>Solver._solve\<close>\<close>

text \<open>
  \<^verbatim>\<open>numpy.linalg.solve\<close> is a parameter \<open>solve\<close> of the model; it returns the solution or
  raises. The method is called \<^verbatim>\<open>_solve\<close> in the source; an identifier cannot start with an
  underscore here. \<^verbatim>\<open>max(F)\<close> and \<^verbatim>\<open>min(F)\<close> run over the entries of a non-empty array.
\<close>

definition py_max :: "real list \<Rightarrow> real" where
  "py_max xs = fold max (tl xs) (hd xs)"

definition py_min :: "real list \<Rightarrow> real" where
  "py_min xs = fold min (tl xs) (hd xs)"

text \<open>\<^verbatim>\<open>if F[0] == 0.0: assert max(F) != min(F), 'no load is applied...'\<close>\<close>

definition no_load_check :: "vec \<Rightarrow> error + unit" where
  "no_load_check F =
     (if F = [] then Inl IndexError
      else if hd F = 0 then
        (if py_max F \<noteq> py_min F then Inr () else Inl (AssertionError ''no load is applied...''))
      else Inr ())"

text \<open>
  The loop of the \<^verbatim>\<open>except\<close> branch: \<^verbatim>\<open>for i, iu in enumerate(dofs)\<close> looks up
  \<^verbatim>\<open>self.IDtoNidComponents[iu]\<close> and records the rows with \<^verbatim>\<open>K[i, i] == 0.0\<close>.
\<close>

fun find_failed ::
    "(nat \<rightharpoonup> int \<times> int) \<Rightarrow> mat \<Rightarrow> nat \<Rightarrow> nat list \<Rightarrow> (int \<times> int) list \<Rightarrow> nat list
      \<Rightarrow> error + ((int \<times> int) list \<times> nat list)" where
  "find_failed ids K i [] failed faileds = Inr (failed, faileds)"
| "find_failed ids K i (iu # dofs) failed faileds =
     (case ids iu of
        None \<Rightarrow> Inl KeyError
      | Some (nid, dof) \<Rightarrow>
          (case mat_get K i i of
             Inl e \<Rightarrow> Inl e
           | Inr v \<Rightarrow>
               if v = 0 then find_failed ids K (i + 1) dofs (failed @ [(nid, dof)]) (faileds @ [i])
               else find_failed ids K (i + 1) dofs failed faileds))"

text \<open>
  The bare \<^verbatim>\<open>except:\<close> catches whatever the first solve raises. The branch under
  \<^verbatim>\<open>if 1:\<close> with \<^verbatim>\<open>value = 1\<close> is always taken; the table of singular points is only
  written to the output file. An exception of the second solve is not caught.
\<close>

definition Solver_solve ::
    "(mat \<Rightarrow> vec \<Rightarrow> error + vec) \<Rightarrow> (nat \<rightharpoonup> int \<times> int) \<Rightarrow> mat \<Rightarrow> vec \<Rightarrow> nat list
      \<Rightarrow> error + vec" where
  "Solver_solve solve IDtoNidComponents K F dofs =
     (case no_load_check F of
        Inl e \<Rightarrow> Inl e
      | Inr _ \<Rightarrow>
          (case solve K F of
             Inr U \<Rightarrow> Inr U
           | Inl _ \<Rightarrow>
               (case find_failed IDtoNidComponents K 0 dofs [] [] of
                  Inl e \<Rightarrow> Inl e
                | Inr (failed, faileds) \<Rightarrow>
                    (let ilist = filter (\<lambda>i. i \<notin> set faileds) [0..<length dofs]
                     in case np_take K ilist of
                          Inl e \<Rightarrow> Inl e
                        | Inr Krows \<Rightarrow>
                            (case np_take_cols Krows ilist of
                               Inl e \<Rightarrow> Inl e
                             | Inr K2 \<Rightarrow>
                                 (case np_take F ilist of
                                    Inl e \<Rightarrow> Inl e
                                  | Inr F2 \<Rightarrow>
                                      (case solve K2 F2 of
                                         Inl e \<Rightarrow> Inl e
                                       | Inr U2 \<Rightarrow>
                                           np_set_items (replicate (length F) 0) ilist U2)))))))"

text \<open>
  The words of the specification: the rows with an exactly zero pivot, the rows that are
  kept, and the system with the other rows and columns removed.
\<close>

definition zero_pivots :: "mat \<Rightarrow> nat \<Rightarrow> nat list" where
  "zero_pivots K n = filter (\<lambda>i. K ! i ! i = 0) [0..<n]"

definition kept_rows :: "mat \<Rightarrow> nat \<Rightarrow> nat list" where
  "kept_rows K n = filter (\<lambda>i. K ! i ! i \<noteq> 0) [0..<n]"

definition reduced_K :: "mat \<Rightarrow> nat list \<Rightarrow> mat" where
  "reduced_K K ilist = map (\<lambda>i. map (\<lambda>j. K ! i ! j) ilist) ilist"

definition reduced_F :: "vec \<Rightarrow> nat list \<Rightarrow> vec" where
  "reduced_F F ilist = map (\<lambda>i. F ! i) ilist"

text \<open>
  A solver for systems of at most two unknowns, by Cramer's rule, to instantiate the
  parameter \<open>solve\<close> at concrete inputs. It raises on a singular matrix as
  \<^verbatim>\<open>numpy.linalg.solve\<close> does.
\<close>

fun cramer_solve :: "mat \<Rightarrow> vec \<Rightarrow> error + vec" where
  "cramer_solve [] [] = Inr []"
| "cramer_solve [[a]] [f] = (if a = 0 then Inl LinAlgError else Inr [f / a])"
| "cramer_solve [[a, b], [c, d]] [f, g] =
     (if a * d - b * c = 0 then Inl LinAlgError
      else Inr [(f * d - b * g) / (a * d - b * c), (a * g - f * c) / (a * d - b * c)])"
| "cramer_solve K F = Inl ValueError"

subsection \<open>Partitioning: \<^verbatim>\<open>solver/utils.py\<close>\<close>

text \<open>
  Modelled from the spec: \<^verbatim>\<open>remove_dofs\<close>, \<^verbatim>\<open>partition_dense_symmetric\<close> and
  \<^verbatim>\<open>partition_dense_vector\<close> of \<^verbatim>\<open>pyNastran.bdf.dev_vectorized.solver.utils\<close>, which
  \<^verbatim>\<open>solver.py\<close> imports and whose source is absent. The specification has
  \<open>free = complement(s)\<close> in the original DOF order, \<open>Ka = Kgg[free, free]\<close> and
  \<open>Fa = Fg[free]\<close>, and says the global arrays are consumed, not mutated.
\<close>

definition remove_dofs :: "int list \<Rightarrow> int list \<Rightarrow> int list" where
  "remove_dofs dofsAll dofs_to_remove = filter (\<lambda>d. d \<notin> set dofs_to_remove) dofsAll"

definition free_dofs :: "nat \<Rightarrow> int list \<Rightarrow> nat list" where
  "free_dofs n s = filter (\<lambda>i. int i \<notin> set s) [0..<n]"

definition partition_dense_symmetric :: "mat \<Rightarrow> int list \<Rightarrow> error + (mat \<times> nat list)" where
  "partition_dense_symmetric A dofs_in =
     (let dofs = free_dofs (length A) dofs_in
      in case np_take A dofs of
           Inl e \<Rightarrow> Inl e
         | Inr rows \<Rightarrow>
             (case np_take_cols rows dofs of
                Inl e \<Rightarrow> Inl e
              | Inr A2 \<Rightarrow> Inr (A2, dofs)))"

definition partition_dense_vector :: "vec \<Rightarrow> int list \<Rightarrow> error + (vec \<times> nat list)" where
  "partition_dense_vector F dofs_in =
     (let dofs = free_dofs (length F) dofs_in
      in case np_take F dofs of
           Inl e \<Rightarrow> Inl e
         | Inr F2 \<Rightarrow> Inr (F2, dofs))"

subsection \<open>\<^verbatim>\<open>Solver.solve_sol_101\<close>\<close>

text \<open>\<^verbatim>\<open>Kgg[i, j] = a\<close> with the indices of an MPC entry, which are Python ints.\<close>

definition mat_set :: "mat \<Rightarrow> int \<Rightarrow> int \<Rightarrow> real \<Rightarrow> error + mat" where
  "mat_set K i j a =
     (case np_index (length K) i of
        None \<Rightarrow> Inl IndexError
      | Some r \<Rightarrow>
          (case np_index (length (K ! r)) j of
             None \<Rightarrow> Inl IndexError
           | Some c \<Rightarrow> Inr (K[r := (K ! r)[c := a]])))"

text \<open>\<^verbatim>\<open>for (i, j, a) in zip(self.iUm, self.jUm, self.Um): Kgg[i, j] = a\<close>\<close>

fun mpc_loop :: "(int \<times> int \<times> real) list \<Rightarrow> mat \<Rightarrow> error + mat" where
  "mpc_loop [] Kgg = Inr Kgg"
| "mpc_loop ((i, j, a) # rest) Kgg =
     (case mat_set Kgg i j a of
        Inl e \<Rightarrow> Inl e
      | Inr Kgg1 \<Rightarrow> mpc_loop rest Kgg1)"

text \<open>
  The method returns \<^verbatim>\<open>Ua\<close>; the model returns with it the arrays \<^verbatim>\<open>Kgg\<close> and \<^verbatim>\<open>Fg\<close> as
  they are when the call returns, the caller's arrays being mutable. \<^verbatim>\<open>reverse_dict\<close>, also
  of \<^verbatim>\<open>utils.py\<close>, is a parameter. \<^verbatim>\<open>zip\<close> over a \<^verbatim>\<open>None\<close> attribute raises \<^verbatim>\<open>TypeError\<close>.
  The block under \<^verbatim>\<open>if 0:\<close> is dead.
\<close>

definition solve_sol_101 ::
    "(mat \<Rightarrow> vec \<Rightarrow> error + vec) \<Rightarrow> (dof_map \<Rightarrow> (nat \<rightharpoonup> int \<times> int)) \<Rightarrow> dof_state \<Rightarrow> dof_map
      \<Rightarrow> mat \<Rightarrow> vec \<Rightarrow> error + (vec \<times> mat \<times> vec)" where
  "solve_sol_101 solve reverse_dict self nidComponentToID Kgg Fg =
     (case (iUm self, jUm self, Um self) of
        (Some iUm1, Some jUm1, Some Um1) \<Rightarrow>
          (case mpc_loop (zip iUm1 (zip jUm1 Um1)) Kgg of
             Inl e \<Rightarrow> Inl e
           | Inr Kgg1 \<Rightarrow>
               (let IDtoNidComponents = reverse_dict nidComponentToID
                in case iUs self of
                     None \<Rightarrow> Inl TypeError
                   | Some iUs1 \<Rightarrow>
                       (case partition_dense_symmetric Kgg1 iUs1 of
                          Inl e \<Rightarrow> Inl e
                        | Inr (Kaa, dofs2) \<Rightarrow>
                            (case partition_dense_vector Fg iUs1 of
                               Inl e \<Rightarrow> Inl e
                             | Inr (Fa, dofs2') \<Rightarrow>
                                 (case Solver_solve solve IDtoNidComponents Kaa Fa dofs2 of
                                    Inl e \<Rightarrow> Inl e
                                  | Inr Ua1 \<Rightarrow> Inr (Ua1, Kgg1, Fg))))))
      | _ \<Rightarrow> Inl TypeError)"

text \<open>The entry of \<^verbatim>\<open>Kgg\<close> that an MPC triple addresses, if its indices are in range.\<close>

definition mpc_target :: "mat \<Rightarrow> int \<times> int \<times> real \<Rightarrow> (nat \<times> nat) option" where
  "mpc_target K t =
     (case np_index (length K) (fst t) of
        None \<Rightarrow> None
      | Some r \<Rightarrow>
          (case np_index (length (K ! r)) (fst (snd t)) of
             None \<Rightarrow> None
           | Some c \<Rightarrow> Some (r, c)))"

subsection \<open>The reconstruction of \<^verbatim>\<open>U\<close> in \<^verbatim>\<open>run_sol_101\<close> and \<^verbatim>\<open>run_sol_103\<close>\<close>

text \<open>
  The innermost statements of \<^verbatim>\<open>apply_SPCs\<close>, for one constrained component:
  \<^verbatim>\<open>i = nidComponentToID[key]\<close>, and \<^verbatim>\<open>if i not in self.iUsb:\<close> the index goes to
  \<^verbatim>\<open>self.iUsb\<close> with the value 0.0 in \<^verbatim>\<open>self.Usb\<close>. The test looks at \<^verbatim>\<open>self.iUsb\<close> only.
\<close>

definition spc_component :: "dof_state \<Rightarrow> dof_map \<Rightarrow> int \<times> int \<Rightarrow> error + dof_state" where
  "spc_component self nidComponentToID key =
     (case nidComponentToID key of
        None \<Rightarrow> Inl KeyError
      | Some i \<Rightarrow>
          if int i \<notin> set (iUsb self)
          then Inr (self\<lparr>iUsb := iUsb self @ [int i], Usb := Usb self @ [0]\<rparr>)
          else Inr self)"

text \<open>
  \<^verbatim>\<open>for (i, iu) in enumerate(idx): U[iu] = vals[i]\<close>. The state of the loop is the array
  \<^verbatim>\<open>U\<close> together with the list of the positions of \<^verbatim>\<open>U\<close> assigned so far, in the order of the
  assignments: the second component records the writes and changes no value.
\<close>

fun scatter_loop :: "vec \<times> nat list \<Rightarrow> nat \<Rightarrow> int list \<Rightarrow> vec \<Rightarrow> error + (vec \<times> nat list)" where
  "scatter_loop UW i [] vals = Inr UW"
| "scatter_loop UW i (iu # rest) vals =
     (if i < length vals then
        (case np_index (length (fst UW)) iu of
           None \<Rightarrow> Inl IndexError
         | Some k \<Rightarrow> scatter_loop ((fst UW)[k := vals ! i], snd UW @ [k]) (i + 1) rest vals)
      else Inl IndexError)"

text \<open>
  Lines 658 to 671 of \<^verbatim>\<open>run_sol_101\<close> (594 to 603 of \<^verbatim>\<open>run_sol_103\<close> are the same):
  \<^verbatim>\<open>dofsAll\<close>, \<^verbatim>\<open>dofsA = remove_dofs(dofsAll, self.iUs)\<close>, \<^verbatim>\<open>dofsA.sort()\<close>,
  \<^verbatim>\<open>U = zeros(n)\<close> and the two loops. The result is \<^verbatim>\<open>U\<close> and the positions assigned by
  the two loops, in order.
\<close>

definition reconstruct_U :: "nat \<Rightarrow> int list \<Rightarrow> vec \<Rightarrow> vec \<Rightarrow> error + (vec \<times> nat list)" where
  "reconstruct_U n iUs1 Us1 Ua1 =
     (let dofsAll = map int [0..<n];
          dofsA = sort (remove_dofs dofsAll iUs1);
          U = replicate n 0
      in case scatter_loop (U, []) 0 iUs1 Us1 of
           Inl e \<Rightarrow> Inl e
         | Inr UW1 \<Rightarrow> scatter_loop UW1 0 dofsA Ua1)"

subsection \<open>\<^verbatim>\<open>Solver.run_sol_103\<close>\<close>

text \<open>
  The names that \<^verbatim>\<open>solver.py\<close> binds at module level: its imports, the class and the three
  functions. A name that a method never assigns is looked up here (and then among the
  builtins of Python, which have no \<^verbatim>\<open>ndofs\<close>).
\<close>

definition solver_module_names :: "string list" where
  "solver_module_names =
     [''print_function'', ''iteritems'', ''range'', ''os'', ''sys'', ''date'', ''zip'', ''pack'',
      ''array'', ''zeros'', ''ones'', ''radians'', ''cos'', ''sin'', ''dot'', ''vstack'',
      ''hstack'', ''eye'', ''searchsorted'', ''array_equal'', ''ndarray'', ''diag'',
      ''fill_diagonal'', ''argsort'', ''nan'', ''nan_to_num'', ''solve'', ''norm'', ''eigh'',
      ''eig'', ''dok_matrix'', ''coo_matrix'', ''triple'', ''reverse_dict'',
      ''partition_dense_symmetric'', ''partition_dense_vector'', ''remove_dofs'',
      ''sorted_bulk_data_header'', ''list_print'', ''print_matrix'', ''print_annotated_matrix'',
      ''BDF'', ''SPC'', ''SPC1'', ''F06'', ''OP2'', ''get_logger'', ''RealDisplacement'',
      ''OLOAD_Resultant'', ''RealCelasStress'', ''RealCelasStrain'', ''RealSpringForce'',
      ''RealRodStress'', ''RealRodStrain'', ''ConrodStress'', ''ConrodStrain'', ''CtubeStress'',
      ''CtubeStrain'', ''RealRodForce'', ''RealConrodForce'', ''RealCtubeForce'',
      ''RealShearStress'', ''RealShearStrain'', ''RealCShearForce'', ''RealBeamStress'',
      ''RealBeamStrain'', ''RealCBeamForce'', ''Solver'', ''get_cards'', ''main'', ''test_mass'']"

text \<open>
  The method asserts \<^verbatim>\<open>model.sol == 103\<close>, reads two parameters, and, when the case has a
  \<^verbatim>\<open>METHOD\<close>, looks it up in four tables (\<open>method_lookup\<close> is the exception of these lookups,
  if any). Then it evaluates \<^verbatim>\<open>self.get_Mgg(model, ndofs, force_calcs=True)\<close>. The method
  assigns \<^verbatim>\<open>ndofs\<close> nowhere, so the name is looked up at module level, and a name that is
  not bound raises \<^verbatim>\<open>NameError\<close> before \<^verbatim>\<open>get_Mgg\<close> is called. \<open>rest\<close> stands for the
  statements after the lookup: \<^verbatim>\<open>get_Mgg\<close>, \<^verbatim>\<open>setup_sol_101\<close>, \<^verbatim>\<open>build_dof_sets\<close>, the call of
  \<^verbatim>\<open>self.solve_sol_103\<close> (which the class does not define) and the reconstruction of
  \<^verbatim>\<open>U\<close>. The method returns nothing.
\<close>

definition run_sol_103 :: "int \<Rightarrow> bool \<Rightarrow> error option \<Rightarrow> error + unit \<Rightarrow> error + unit" where
  "run_sol_103 sol has_METHOD method_lookup rest =
     (if sol \<noteq> 103 then Inl (AssertionError ''model.sol=%s is not 101'')
      else case (if has_METHOD then method_lookup else None) of
             Some e \<Rightarrow> Inl e
           | None \<Rightarrow>
               if ''ndofs'' \<in> set solver_module_names then rest
               else Inl (NameError ''ndofs''))"

subsection \<open>\<^verbatim>\<open>Solver.make_gpwg\<close>: principal axes, center of gravity, inertia\<close>

text \<open>Matrix product and transpose of numpy, on lists of rows.\<close>

definition ncols :: "mat \<Rightarrow> nat" where
  "ncols A = (case A of [] \<Rightarrow> 0 | row # _ \<Rightarrow> length row)"

definition dot :: "mat \<Rightarrow> mat \<Rightarrow> mat" where
  "dot A B =
     map (\<lambda>row. map (\<lambda>j. sum_list (map (\<lambda>k. row ! k * B ! k ! j) [0..<length B]))
                    [0..<ncols B]) A"

definition mat_T :: "mat \<Rightarrow> mat" where
  "mat_T A = map (\<lambda>j. map (\<lambda>row. row ! j) A) [0..<ncols A]"

text \<open>
  Modelled from the spec: \<^verbatim>\<open>triple\<close> of \<^verbatim>\<open>solver/utils.py\<close>, whose source is absent.
  The specification reduces the mass matrix "through this mapping" and re-expresses
  a block "in the principal frame": \<open>triple(A, B) = A\<^sup>T B A\<close>.
\<close>

definition triple :: "mat \<Rightarrow> mat \<Rightarrow> mat" where
  "triple A B = dot (mat_T A) (dot B A)"

text \<open>The coupling terms of the principal frame, as the source arranges them in \<^verbatim>\<open>cg\<close>.\<close>

definition coupling_terms :: "mat \<Rightarrow> mat" where
  "coupling_terms Mtr =
     [[Mtr ! 0 ! 0, - (Mtr ! 0 ! 2), Mtr ! 0 ! 1],
      [Mtr ! 1 ! 2, Mtr ! 1 ! 1, - (Mtr ! 1 ! 0)],
      [- (Mtr ! 2 ! 1), Mtr ! 2 ! 0, Mtr ! 2 ! 2]]"

text \<open>
  Lines 1439 to 1488 of \<^verbatim>\<open>make_gpwg\<close>, from the eigenvectors \<open>S\<close> that
  \<^verbatim>\<open>eigh(Mt_bar)\<close> returns and the blocks \<^verbatim>\<open>Mt_bar\<close>, \<^verbatim>\<open>Mtr_bar\<close>, \<^verbatim>\<open>Mr_bar\<close> of \<^verbatim>\<open>Mo\<close>, all
  \<open>3 \<times> 3\<close>. \<^verbatim>\<open>mass = diag(Mt)\<close>; \<^verbatim>\<open>cg[k, :] /= M\<close> divides a row in place; the line
  \<^verbatim>\<open>cg = nan_to_num(cg)\<close> is commented out in the source; \<^verbatim>\<open>nan_to_num(II)\<close> changes no real
  number. The second row of \<^verbatim>\<open>II\<close> ends with \<^verbatim>\<open>I13\<close> in the source. The result is
  \<^verbatim>\<open>(mass, cg, II)\<close>. The source keeps \<^verbatim>\<open>cg\<close> and \<^verbatim>\<open>II\<close> (and \<^verbatim>\<open>xyz_cid0\<close>, \<^verbatim>\<open>D\<close>, \<^verbatim>\<open>Tr\<close>, \<^verbatim>\<open>d\<close>
  below) in arrays of dtype \<^verbatim>\<open>float32\<close>; all of them are modelled over the reals, so the
  rounding of the stored values is not part of the model.
\<close>

definition make_gpwg_principal :: "mat \<Rightarrow> mat \<Rightarrow> mat \<Rightarrow> mat \<Rightarrow> vec \<times> mat \<times> mat" where
  "make_gpwg_principal S Mt_bar Mtr_bar Mr_bar =
     (let Mt = triple S Mt_bar;
          Mtr = triple S Mtr_bar;
          Mr = triple S Mr_bar;
          Mx = Mt ! 0 ! 0;
          My = Mt ! 1 ! 1;
          Mz = Mt ! 2 ! 2;
          mass = [Mt ! 0 ! 0, Mt ! 1 ! 1, Mt ! 2 ! 2];
          cg0 = [[Mtr ! 0 ! 0, - (Mtr ! 0 ! 2), Mtr ! 0 ! 1],
                 [Mtr ! 1 ! 2, Mtr ! 1 ! 1, - (Mtr ! 1 ! 0)],
                 [- (Mtr ! 2 ! 1), Mtr ! 2 ! 0, Mtr ! 2 ! 2]];
          cg1 = (if mass ! 0 \<noteq> 0 then cg0[0 := map (\<lambda>x. x / Mx) (cg0 ! 0)] else cg0);
          cg2 = (if mass ! 1 \<noteq> 0 then cg1[1 := map (\<lambda>x. x / My) (cg1 ! 1)] else cg1);
          cg = (if mass ! 2 \<noteq> 0 then cg2[2 := map (\<lambda>x. x / Mz) (cg2 ! 2)] else cg2);
          xx = cg ! 0 ! 0; yx = cg ! 0 ! 1; zx = cg ! 0 ! 2;
          xy = cg ! 1 ! 0; yy = cg ! 1 ! 1; zy = cg ! 1 ! 2;
          xz = cg ! 2 ! 0; yz = cg ! 2 ! 1; zz = cg ! 2 ! 2;
          I11 = Mr ! 0 ! 0 - My * zy ^ 2 - Mz * yz ^ 2;
          I12 = - (Mr ! 0 ! 1) - Mz * xz * yz;
          I21 = I12;
          I31 = - (Mr ! 0 ! 2) - My * xy * zy;
          I13 = I31;
          I22 = Mr ! 1 ! 1 - Mz * xz ^ 2 - Mx * zx ^ 2;
          I23 = - (Mr ! 1 ! 2) - Mx * yx * zx;
          I32 = I23;
          I33 = Mr ! 2 ! 2 - Mx * yx ^ 2 - My * xy ^ 2;
          II = [[I11, I12, I13],
                [I21, I22, I13],
                [I31, I32, I33]]
      in (mass, cg, II))"

text \<open>The \<open>3 \<times> 3\<close> zero and identity matrices.\<close>

definition zeros3 :: mat where
  "zeros3 = [[0, 0, 0], [0, 0, 0], [0, 0, 0]]"

definition eye3 :: mat where
  "eye3 = [[1, 0, 0], [0, 1, 0], [0, 0, 1]]"

text \<open>
  The whole method, from line 1365. Its inputs besides the arguments \<^verbatim>\<open>grid_point\<close> and
  \<^verbatim>\<open>Mgg\<close> are \<^verbatim>\<open>self.model.grid.n\<close>, the dict \<^verbatim>\<open>self.positions\<close> (given by the list of its
  items, whose keys are distinct; a value is a row \<^verbatim>\<open>model.grid.xyz[i]\<close>, three numbers),
  the array \<^verbatim>\<open>self.model.grid.cp\<close> and, for \<^verbatim>\<open>self.model.coords[cp].beta()\<close>, the matrix of each
  coordinate system.
\<close>

type_synonym xyz = "real \<times> real \<times> real"

text \<open>
  \<^verbatim>\<open>for i, (key, xyz) in enumerate(sorted(iteritems(self.positions))): xyz_cid0[i, :] = xyz\<close>,
  from index \<open>i\<close> on; a row index past the end of \<^verbatim>\<open>xyz_cid0\<close> raises \<^verbatim>\<open>IndexError\<close>.
\<close>

fun fill_xyz :: "xyz list \<Rightarrow> nat \<Rightarrow> (int \<times> xyz) list \<Rightarrow> error + xyz list" where
  "fill_xyz xyz_cid0 i [] = Inr xyz_cid0"
| "fill_xyz xyz_cid0 i ((key, xyz) # rest) =
     (if i < length xyz_cid0 then fill_xyz (xyz_cid0[i := xyz]) (i + 1) rest
      else Inl IndexError)"

text \<open>\<^verbatim>\<open>xyz_cid0 - ref_point\<close>, one row.\<close>

definition xyz_sub :: "xyz \<Rightarrow> xyz \<Rightarrow> xyz" where
  "xyz_sub a b =
     (case a of (a1, a2, a3) \<Rightarrow> case b of (b1, b2, b3) \<Rightarrow> (a1 - b1, a2 - b2, a3 - b3))"

text \<open>
  The block \<^verbatim>\<open>d\<close> of one node: \<^verbatim>\<open>d = zeros((6, 6))\<close>, \<^verbatim>\<open>d[:3, :3] = TiT\<close>,
  \<^verbatim>\<open>d[3:, 3:] = TiT\<close>, \<^verbatim>\<open>d[:3, 3:] = dot(TiT, Tr)\<close>, for a \<open>3 \<times> 3\<close> matrix \<^verbatim>\<open>TiT\<close>.
\<close>

definition rigid_body_block :: "mat \<Rightarrow> mat \<Rightarrow> mat" where
  "rigid_body_block TiT Tr =
     map (\<lambda>r. TiT ! r @ dot TiT Tr ! r) [0..<3] @
     map (\<lambda>r. [0, 0, 0] @ TiT ! r) [0..<3]"

text \<open>
  The loop \<^verbatim>\<open>for i, node in enumerate(xyz_cid0 - ref_point)\<close> of lines 1385 to 1402, from
  index \<open>i\<close> on: \<^verbatim>\<open>self.model.grid.cp[i]\<close> raises \<^verbatim>\<open>IndexError\<close> past the end of the array, the
  lookup of the coordinate system raises \<^verbatim>\<open>KeyError\<close>, and the assignment of a matrix that
  is not \<open>3 \<times> 3\<close> to a block of \<^verbatim>\<open>d\<close> raises \<^verbatim>\<open>ValueError\<close>. \<^verbatim>\<open>D[j:j+6, :] = d\<close> replaces the
  six rows from \<open>j\<close> on.
\<close>

fun rigid_body_loop ::
    "(int \<rightharpoonup> mat) \<Rightarrow> int list \<Rightarrow> mat \<Rightarrow> nat \<Rightarrow> xyz list \<Rightarrow> error + mat" where
  "rigid_body_loop coords grid_cp D i [] = Inr D"
| "rigid_body_loop coords grid_cp D i (node # rest) =
     (case node of (r1, r2, r3) \<Rightarrow>
        let j = i * 6;
            Tr = [[0, r3, - r2],
                  [- r3, 0, r1],
                  [r2, - r1, 0]]
        in if i < length grid_cp then
             (case coords (grid_cp ! i) of
                None \<Rightarrow> Inl KeyError
              | Some Ti \<Rightarrow>
                  if length Ti = 3 \<and> list_all (\<lambda>row. length row = 3) Ti then
                    (let TiT = mat_T Ti;
                         d = rigid_body_block TiT Tr
                     in rigid_body_loop coords grid_cp (take j D @ d @ drop (j + 6) D)
                          (i + 1) rest)
                  else Inl ValueError)
           else Inl IndexError)"

text \<open>The attributes that the method stores in \<^verbatim>\<open>self.grid_point_weight\<close>.\<close>

record grid_point_weight =
  gpw_reference_point :: int
  gpw_MO :: mat
  gpw_S :: mat
  gpw_mass :: vec
  gpw_cg :: mat
  gpw_IS :: mat
  gpw_IQ :: vec
  gpw_Q :: mat

text \<open>
  \<^verbatim>\<open>make_gpwg(self, grid_point, Mgg)\<close>; \<^verbatim>\<open>example\<close> is \<^verbatim>\<open>False\<close>. \<^verbatim>\<open>numpy.linalg.eigh\<close> and
  \<^verbatim>\<open>numpy.linalg.eig\<close> are the parameters \<open>eigh\<close> and \<open>eig\<close>, which return the eigenvalues
  and the matrix of eigenvectors or fail. Line 1375 assigns \<^verbatim>\<open>grid_point = 2\<close> over the
  argument, so the test \<^verbatim>\<open>grid_point in [-1, 0]\<close> and the lookup
  \<^verbatim>\<open>self.positions[grid_point]\<close> (a \<^verbatim>\<open>KeyError\<close> for a missing key) see the value 2, as does
  the attribute \<^verbatim>\<open>reference_point\<close>. \<^verbatim>\<open>triple(D, Mgg)\<close> needs \<^verbatim>\<open>Mgg\<close> to be square of the size
  of the rows of \<^verbatim>\<open>D\<close> (\<^verbatim>\<open>ValueError\<close> of the matrix product otherwise). Lines 1419 to 1432
  compute \<^verbatim>\<open>delta\<close> and \<^verbatim>\<open>epsilon\<close> for the log only and raise nothing (a numpy division);
  \<^verbatim>\<open>fill_diagonal(-II, diag(II))\<close> writes to a temporary array; \<^verbatim>\<open>nan in II\<close> is false of
  every array, so \<^verbatim>\<open>Q\<close> comes from \<^verbatim>\<open>eig(II)\<close>.
\<close>

definition make_gpwg ::
    "(mat \<Rightarrow> error + vec \<times> mat) \<Rightarrow> (mat \<Rightarrow> error + vec \<times> mat) \<Rightarrow>
     nat \<Rightarrow> (int \<times> xyz) list \<Rightarrow> int list \<Rightarrow> (int \<rightharpoonup> mat) \<Rightarrow>
     int \<Rightarrow> mat \<Rightarrow> error + grid_point_weight" where
  "make_gpwg eigh eig grid_n positions grid_cp coords grid_point_arg Mgg =
     (case fill_xyz (replicate grid_n (0, 0, 0)) 0 (sort_key fst positions) of
        Inl e \<Rightarrow> Inl e
      | Inr xyz_cid0 \<Rightarrow>
          let nnodes = length xyz_cid0;
              D0 = replicate (nnodes * 6) (replicate 6 0);
              grid_point = 2
          in case (if grid_point \<in> set [- 1, 0] then Inr (0, 0, 0)
                   else case map_of positions grid_point of
                          None \<Rightarrow> Inl KeyError
                        | Some xyz \<Rightarrow> Inr xyz) of
               Inl e \<Rightarrow> Inl e
             | Inr ref_point \<Rightarrow>
                 (case rigid_body_loop coords grid_cp D0 0
                         (map (\<lambda>xyz. xyz_sub xyz ref_point) xyz_cid0) of
                    Inl e \<Rightarrow> Inl e
                  | Inr D \<Rightarrow>
                      if length Mgg = length D \<and>
                         list_all (\<lambda>row. length row = length D) Mgg then
                        (let Mo = triple D Mgg;
                             Mt_bar = map (take 3) (take 3 Mo);
                             Mtr_bar = map (drop 3) (take 3 Mo);
                             Mrt_bar = map (take 3) (drop 3 Mo);
                             Mr_bar = map (drop 3) (drop 3 Mo)
                         in case eigh Mt_bar of
                              Inl e \<Rightarrow> Inl e
                            | Inr (omega, S) \<Rightarrow>
                                (case make_gpwg_principal S Mt_bar Mtr_bar Mr_bar of
                                   (mass, cg, II) \<Rightarrow>
                                     (case eig II of
                                        Inl e \<Rightarrow> Inl e
                                      | Inr (omegaQ, Q) \<Rightarrow>
                                          let IQ = triple Q II
                                          in Inr \<lparr>gpw_reference_point = grid_point,
                                                  gpw_MO = Mo,
                                                  gpw_S = S,
                                                  gpw_mass = mass,
                                                  gpw_cg = cg,
                                                  gpw_IS = II,
                                                  gpw_IQ = [IQ ! 0 ! 0, IQ ! 1 ! 1, IQ ! 2 ! 2],
                                                  gpw_Q = Q\<rparr>)))
                      else Inl ValueError))"

subsection \<open>\<^verbatim>\<open>Solver.add_stiffness\<close> and \<^verbatim>\<open>Solver.add_mass\<close>\<close>

text \<open>\<^verbatim>\<open>Kgg[dof1, dof2] += v\<close>\<close>

definition mat_add_at :: "mat \<Rightarrow> int \<Rightarrow> int \<Rightarrow> real \<Rightarrow> error + mat" where
  "mat_add_at K i j v =
     (case np_index (length K) i of
        None \<Rightarrow> Inl IndexError
      | Some r \<Rightarrow>
          (case np_index (length (K ! r)) j of
             None \<Rightarrow> Inl IndexError
           | Some c \<Rightarrow> Inr (K[r := (K ! r)[c := K ! r ! c + v]])))"

text \<open>
  The two statements of \<^verbatim>\<open>add_mass\<close>, \<^verbatim>\<open>Mgg[dof1, dof2] += v\<close> and
  \<^verbatim>\<open>Mgg_sparse[dof1, dof2] += v\<close>; the sparse matrix is modelled by the array of its entries.
\<close>

definition mass_add_at :: "mat \<times> mat \<Rightarrow> int \<Rightarrow> int \<Rightarrow> real \<Rightarrow> error + (mat \<times> mat)" where
  "mass_add_at MM i j v =
     (case mat_add_at (fst MM) i j v of
        Inl e \<Rightarrow> Inl e
      | Inr Mgg1 \<Rightarrow>
          (case mat_add_at (snd MM) i j v of
             Inl e \<Rightarrow> Inl e
           | Inr Mgg_sparse1 \<Rightarrow> Inr (Mgg1, Mgg_sparse1)))"

text \<open>
  Both methods run the same two loops, \<^verbatim>\<open>for i, dof1 in enumerate(dofs)\<close> and
  \<^verbatim>\<open>for j, dof2 in enumerate(dofs)\<close>, with the test \<^verbatim>\<open>abs(K[i, j]) > 0.0\<close> before the
  addition; the loops are written once, over the statement \<open>add\<close> that adds an entry.
  \<open>scatter_row\<close> is the inner loop from column \<open>j\<close> on, \<open>scatter_rows\<close> the outer loop from
  row \<open>i\<close> on.
\<close>

fun scatter_row ::
    "('s \<Rightarrow> int \<Rightarrow> int \<Rightarrow> real \<Rightarrow> error + 's) \<Rightarrow> mat \<Rightarrow> nat \<Rightarrow> int \<Rightarrow> nat \<Rightarrow> int list \<Rightarrow> 's
      \<Rightarrow> error + 's" where
  "scatter_row add K i dof1 j [] G = Inr G"
| "scatter_row add K i dof1 j (dof2 # rest) G =
     (case mat_get K i j of
        Inl e \<Rightarrow> Inl e
      | Inr v \<Rightarrow>
          if \<bar>v\<bar> > 0 then
            (case add G dof1 dof2 v of
               Inl e \<Rightarrow> Inl e
             | Inr G1 \<Rightarrow> scatter_row add K i dof1 (j + 1) rest G1)
          else scatter_row add K i dof1 (j + 1) rest G)"

fun scatter_rows ::
    "('s \<Rightarrow> int \<Rightarrow> int \<Rightarrow> real \<Rightarrow> error + 's) \<Rightarrow> mat \<Rightarrow> int list \<Rightarrow> nat \<Rightarrow> int list \<Rightarrow> 's
      \<Rightarrow> error + 's" where
  "scatter_rows add K dofs i [] G = Inr G"
| "scatter_rows add K dofs i (dof1 # rest) G =
     (case scatter_row add K i dof1 0 dofs G of
        Inl e \<Rightarrow> Inl e
      | Inr G1 \<Rightarrow> scatter_rows add K dofs (i + 1) rest G1)"

definition add_stiffness :: "mat \<Rightarrow> mat \<Rightarrow> int list \<Rightarrow> error + mat" where
  "add_stiffness Kgg K dofs = scatter_rows mat_add_at K dofs 0 dofs Kgg"

definition add_mass :: "mat \<times> mat \<Rightarrow> mat \<Rightarrow> int list \<Rightarrow> error + (mat \<times> mat)" where
  "add_mass MM M dofs = scatter_rows mass_add_at M dofs 0 dofs MM"

text \<open>
  The assembly calls \<^verbatim>\<open>add_stiffness\<close> (\<^verbatim>\<open>add_mass\<close>) once for each element, with the local
  matrix and the DOF indices that the element provides, on the matrix that starts as
  \<^verbatim>\<open>zeros((ndofs, ndofs))\<close>.
\<close>

fun add_stiffness_all :: "(mat \<times> int list) list \<Rightarrow> mat \<Rightarrow> error + mat" where
  "add_stiffness_all [] Kgg = Inr Kgg"
| "add_stiffness_all ((K, dofs) # elems) Kgg =
     (case add_stiffness Kgg K dofs of
        Inl e \<Rightarrow> Inl e
      | Inr Kgg1 \<Rightarrow> add_stiffness_all elems Kgg1)"

fun add_mass_all :: "(mat \<times> int list) list \<Rightarrow> mat \<times> mat \<Rightarrow> error + (mat \<times> mat)" where
  "add_mass_all [] MM = Inr MM"
| "add_mass_all ((M, dofs) # elems) MM =
     (case add_mass MM M dofs of
        Inl e \<Rightarrow> Inl e
      | Inr MM1 \<Rightarrow> add_mass_all elems MM1)"

text \<open>\<^verbatim>\<open>zeros((m, n), 'float64')\<close>\<close>

definition zeros :: "nat \<Rightarrow> nat \<Rightarrow> mat" where
  "zeros m n = replicate m (replicate n 0)"

text \<open>
  The words of the specification: an \<open>n \<times> n\<close> array, a symmetric one, and an element
  contribution whose local matrix is square of the size of its index list and symmetric
  and whose indices are DOF indices of the global matrix.
\<close>

definition square :: "nat \<Rightarrow> mat \<Rightarrow> bool" where
  "square n A \<longleftrightarrow> length A = n \<and> list_all (\<lambda>row. length row = n) A"

definition symmetric :: "nat \<Rightarrow> mat \<Rightarrow> bool" where
  "symmetric n A \<longleftrightarrow> list_all (\<lambda>r. list_all (\<lambda>c. A ! r ! c = A ! c ! r) [0..<n]) [0..<n]"

definition element_ok :: "nat \<Rightarrow> mat \<times> int list \<Rightarrow> bool" where
  "element_ok N el \<longleftrightarrow>
     square (length (snd el)) (fst el) \<and> symmetric (length (snd el)) (fst el) \<and>
     list_all (\<lambda>d. 0 \<le> d \<and> d < int N) (snd el)"

section \<open>Properties\<close>

subsection \<open>The DOF set algebra\<close>

lemma build_dof_sets_base:
  "iUsb (build_dof_sets self) = iUsb self" "Usb (build_dof_sets self) = Usb self"
  "iUsg (build_dof_sets self) = iUsg self" "Usg (build_dof_sets self) = Usg self"
  "iUmp (build_dof_sets self) = iUmp self" "Ump (build_dof_sets self) = Ump self"
  "jUmp (build_dof_sets self) = jUmp self"
  "iUmr (build_dof_sets self) = iUmr self" "Umr (build_dof_sets self) = Umr self"
  "jUmr (build_dof_sets self) = jUmr self"
  "iUc (build_dof_sets self) = iUc self" "Uc (build_dof_sets self) = Uc self"
  "iUlm (build_dof_sets self) = iUlm self" "Ulm (build_dof_sets self) = Ulm self"
  "iUr (build_dof_sets self) = iUr self" "Ur (build_dof_sets self) = Ur self"
  "iUq (build_dof_sets self) = iUq self" "Uq (build_dof_sets self) = Uq self"
  "iUo (build_dof_sets self) = iUo self" "Uo (build_dof_sets self) = Uo self"
  "iUe (build_dof_sets self) = iUe self" "Ue (build_dof_sets self) = Ue self"
  "iUk (build_dof_sets self) = iUk self" "Uk (build_dof_sets self) = Uk self"
  "iUj (build_dof_sets self) = iUj self" "Uj (build_dof_sets self) = Uj self"
  "iUsa (build_dof_sets self) = iUsa self" "Usa (build_dof_sets self) = Usa self"
  by (simp_all add: build_dof_sets_def Let_def)



subsection \<open>The DOF indexer\<close>

lemma grid_step_map:
  "set_grid_dofs m (node_id g) i = m ++ map_of (zip (grid_keys g) [i..<i + 6])"
proof -
  have u: "[i..<i + 6] = [i, i + 1, i + 2, i + 3, i + 4, i + 5]"
    by (simp add: upt_rec)
  show ?thesis
    unfolding u by (rule ext) (simp add: map_add_def grid_keys_def set_grid_dofs_def)
qed

lemma dom_map_of_zip_subset: "dom (map_of (zip xs ys)) \<subseteq> set xs"
  by (auto simp: dom_map_of_conv_image_fst dest: set_zip_leftD)

lemma length_concat_grid_keys: "length (concat (map grid_keys gs)) = 6 * length gs"
  by (induction gs) (simp_all add: grid_keys_def)

lemma fst_grid_loop: "fst (grid_loop gs i m self) = i + 6 * length gs"
  by (induction gs arbitrary: i m self) (simp_all add: Let_def)

lemma fst_snd_grid_loop:
  "distinct (map node_id gs) \<Longrightarrow>
   fst (snd (grid_loop gs i m self))
     = m ++ map_of (zip (concat (map grid_keys gs)) [i..<i + 6 * length gs])"
proof (induction gs arbitrary: i m self)
  case Nil
  then show ?case by simp
next
  case (Cons g gs)
  let ?A = "zip (grid_keys g) [i..<i + 6]"
  let ?B = "zip (concat (map grid_keys gs)) [i + 6..<i + 6 + 6 * length gs]"
  have split: "[i..<i + 6 * length (g # gs)] = [i..<i + 6] @ [i + 6..<i + 6 + 6 * length gs]"
  proof -
    have e: "i + 6 * length (g # gs) = (i + 6) + 6 * length gs" by simp
    show ?thesis unfolding e by (rule upt_add_eq_append) simp
  qed
  have z: "zip (concat (map grid_keys (g # gs))) [i..<i + 6 * length (g # gs)] = ?A @ ?B"
  proof -
    have c: "concat (map grid_keys (g # gs)) = grid_keys g @ concat (map grid_keys gs)"
      by simp
    show ?thesis unfolding split c by (rule zip_append) (simp add: grid_keys_def)
  qed
  have disj: "dom (map_of ?A) \<inter> dom (map_of ?B) = {}"
  proof -
    have "dom (map_of ?A) \<subseteq> set (grid_keys g)"
      by (rule dom_map_of_zip_subset)
    moreover have "dom (map_of ?B) \<subseteq> set (concat (map grid_keys gs))"
      by (rule dom_map_of_zip_subset)
    moreover have "set (grid_keys g) \<inter> set (concat (map grid_keys gs)) = {}"
      using Cons.prems by (auto simp: grid_keys_def)
    ultimately show ?thesis by blast
  qed
  have "fst (snd (grid_loop (g # gs) i m self))
        = (m ++ map_of ?A) ++ map_of ?B"
    using Cons.IH [of "i + 6"] Cons.prems
    by (simp add: Let_def grid_step_map)
  also have "\<dots> = m ++ (map_of ?A ++ map_of ?B)" by simp
  also have "map_of ?A ++ map_of ?B = map_of ?B ++ map_of ?A"
    using disj by (rule map_add_comm)
  also have "\<dots> = map_of (?A @ ?B)" by simp
  finally show ?case unfolding z .
qed

lemma spoint_loop_fst: "fst (spoint_loop nids i m) = i + length nids"
  by (induction nids arbitrary: i m) simp_all

lemma spoint_loop_snd:
  "distinct nids \<Longrightarrow>
   snd (spoint_loop nids i m) = m ++ map_of (zip (map (\<lambda>nid. (nid, 1)) nids) [i..<i + length nids])"
proof (induction nids arbitrary: i m)
  case Nil
  then show ?case by simp
next
  case (Cons a nids)
  let ?B = "zip (map (\<lambda>nid. (nid, 1::int)) nids) [Suc i..<Suc i + length nids]"
  have notin: "(a, 1) \<notin> dom (map_of ?B)"
  proof
    assume "(a, 1) \<in> dom (map_of ?B)"
    then have "(a, 1) \<in> set (map (\<lambda>nid. (nid, 1::int)) nids)"
      by (rule subsetD [OF dom_map_of_zip_subset])
    with Cons.prems show False by auto
  qed
  have "snd (spoint_loop (a # nids) i m) = (m((a, 1) \<mapsto> i)) ++ map_of ?B"
    using Cons.IH [of "Suc i"] Cons.prems by simp
  also have "\<dots> = m ++ (map_of ?B)((a, 1) \<mapsto> i)"
    by (simp only: map_add_upd_left [OF notin] map_add_upd)
  also have "(map_of ?B)((a, 1) \<mapsto> i)
      = map_of (zip (map (\<lambda>nid. (nid, 1)) (a # nids)) [i..<i + length (a # nids)])"
  proof -
    have u: "[i..<i + length (a # nids)] = i # [Suc i..<Suc i + length nids]"
      by (subst upt_conv_Cons) simp_all
    show ?thesis unfolding u by simp
  qed
  finally show ?case .
qed


lemma distinct_concat_grid_keys:
  "distinct (map node_id gs) \<Longrightarrow> distinct (concat (map grid_keys gs))"
  by (induction gs) (auto simp: grid_keys_def)

lemma set_concat_grid_keys:
  "set (concat (map grid_keys gs)) = node_id ` set gs \<times> {1, 2, 3, 4, 5, 6}"
  by (induction gs) (auto simp: grid_keys_def)

lemma distinct_dof_order:
  assumes "distinct (map node_id (grid model) @ spoint model)"
  shows "distinct (dof_order model)"
proof -
  have "distinct (map (\<lambda>nid. (nid, 1::int)) (sort (spoint model)))"
    using assms by (simp add: distinct_map inj_on_def)
  moreover have "set (concat (map grid_keys (grid model)))
      \<inter> set (map (\<lambda>nid. (nid, 1::int)) (sort (spoint model))) = {}"
    using assms by (auto simp: grid_keys_def)
  ultimately show ?thesis
    using assms by (simp add: dof_order_def distinct_concat_grid_keys)
qed

lemma length_dof_order:
  "length (dof_order model) = 6 * length (grid model) + length (spoint model)"
  by (simp add: dof_order_def length_concat_grid_keys)

lemma spoint_part:
  assumes "distinct nids"
  shows "(if length nids \<noteq> 0 then spoint_loop (sort nids) i m else (i, m))
       = (i + length nids,
          m ++ map_of (zip (map (\<lambda>nid. (nid, 1)) (sort nids)) [i..<i + length nids]))"
proof (cases "nids = []")
  case True
  then show ?thesis by simp
next
  case False
  have "spoint_loop (sort nids) i m
      = (fst (spoint_loop (sort nids) i m), snd (spoint_loop (sort nids) i m))"
    by simp
  also have "\<dots> = (i + length nids,
          m ++ map_of (zip (map (\<lambda>nid. (nid, 1)) (sort nids)) [i..<i + length nids]))"
    using assms spoint_loop_snd [of "sort nids" i m] by (simp add: spoint_loop_fst)
  finally show ?thesis using False by simp
qed

lemma dof_map_closed_form:
  assumes d: "distinct (map node_id (grid model) @ spoint model)"
  defines "ng \<equiv> length (grid model)" and "ns \<equiv> length (spoint model)"
  shows "map_of (zip (concat (map grid_keys (grid model))) [0..<6 * ng])
           ++ map_of (zip (map (\<lambda>nid. (nid, 1)) (sort (spoint model))) [6 * ng..<6 * ng + ns])
         = map_of (zip (dof_order model) [0..<6 * ng + ns])"
proof -
  let ?A = "zip (concat (map grid_keys (grid model))) [0..<6 * ng]"
  let ?B = "zip (map (\<lambda>nid. (nid, 1::int)) (sort (spoint model))) [6 * ng..<6 * ng + ns]"
  have "dom (map_of ?A) \<subseteq> set (concat (map grid_keys (grid model)))"
    by (rule dom_map_of_zip_subset)
  moreover have "dom (map_of ?B) \<subseteq> set (map (\<lambda>nid. (nid, 1::int)) (sort (spoint model)))"
    by (rule dom_map_of_zip_subset)
  moreover have "set (concat (map grid_keys (grid model)))
      \<inter> set (map (\<lambda>nid. (nid, 1::int)) (sort (spoint model))) = {}"
    using d by (auto simp: grid_keys_def)
  ultimately have disj: "dom (map_of ?A) \<inter> dom (map_of ?B) = {}"
    by blast
  have split: "[0..<6 * ng + ns] = [0..<6 * ng] @ [6 * ng..<6 * ng + ns]"
    by (rule upt_add_eq_append) simp
  have z: "zip (dof_order model) [0..<6 * ng + ns] = ?A @ ?B"
    unfolding split dof_order_def
    by (rule zip_append) (simp add: length_concat_grid_keys ng_def)
  have "map_of ?A ++ map_of ?B = map_of ?B ++ map_of ?A"
    using disj by (rule map_add_comm)
  also have "\<dots> = map_of (?A @ ?B)" by simp
  finally show ?thesis unfolding z .
qed

lemma build_nid_component_to_id_result:
  assumes d: "distinct (map node_id (grid model) @ spoint model)"
      and pos: "0 < length (grid model) + length (spoint model)"
  shows "build_nid_component_to_id self model =
           Inr ((map_of (zip (dof_order model)
                    [0..<6 * length (grid model) + length (spoint model)]),
                 6 * length (grid model) + length (spoint model)),
                (snd (snd (grid_loop (grid model) 0 Map.empty self)))
                  \<lparr>mp_index := Some (length (grid model) + length (spoint model))\<rparr>)"
proof -
  let ?gl = "grid_loop (grid model) 0 Map.empty self"
  let ?ng = "length (grid model)"
  let ?ns = "length (spoint model)"
  have dg: "distinct (map node_id (grid model))" and ds: "distinct (spoint model)"
    using d by simp_all
  have gl: "?gl = (6 * ?ng,
                   map_of (zip (concat (map grid_keys (grid model))) [0..<6 * ?ng]),
                   snd (snd ?gl))"
    using fst_grid_loop [of "grid model" 0 Map.empty self]
          fst_snd_grid_loop [OF dg, of 0 Map.empty self]
    by (metis add_0 empty_map_add prod.collapse)
  show ?thesis
    unfolding build_nid_component_to_id_def
    apply (subst gl)
    apply (simp only: Let_def prod.case spoint_part [OF ds] dof_map_closed_form [OF d])
    using pos apply (simp add: set_eq_int_def)
    done
qed

text \<open>
  C3, as amended. For a model with at least one point whose ids are pairwise distinct, over
  the grid points and the scalar points together, \<^verbatim>\<open>build_nid_component_to_id\<close> returns
  \<open>N = 6 * n_grid + n_scalar_points\<close> and a map whose values are exactly \<open>0, \<dots>, N - 1\<close>,
  without gap or duplicate: the key at position \<open>j\<close> of the order "grid points as listed,
  components 1 to 6, then the scalar points in sorted order" gets the index \<open>j\<close>.
\<close>

theorem build_nid_component_to_id_contiguous:
  assumes d: "distinct (map node_id (grid model) @ spoint model)"
      and pos: "0 < length (grid model) + length (spoint model)"
  shows "\<exists>m self'.
      build_nid_component_to_id self model
        = Inr ((m, 6 * length (grid model) + length (spoint model)), self') \<and>
      ran m = {0..<6 * length (grid model) + length (spoint model)} \<and>
      dom m = set (dof_order model) \<and>
      inj_on m (dom m) \<and>
      card (dom m) = 6 * length (grid model) + length (spoint model) \<and>
      (\<forall>j<6 * length (grid model) + length (spoint model). m (dof_order model ! j) = Some j)"
proof -
  let ?N = "6 * length (grid model) + length (spoint model)"
  let ?ks = "dof_order model"
  let ?m = "map_of (zip ?ks [0..<?N])"
  have len: "length ?ks = length [0..<?N]"
    by (simp add: length_dof_order)
  have dist: "distinct ?ks"
    using d by (rule distinct_dof_order)
  have nth: "?m (?ks ! j) = Some j" if "j < ?N" for j
    using map_of_zip_nth [OF len dist, of j] that by simp
  have dom: "dom ?m = set ?ks"
    using len by (rule dom_map_of_zip)
  have ran: "ran ?m = {0..<?N}"
    using ran_map_of_zip [OF len dist] by simp
  have inj: "inj_on ?m (dom ?m)"
  proof (rule inj_onI)
    fix x y
    assume x: "x \<in> dom ?m" and y: "y \<in> dom ?m" and e: "?m x = ?m y"
    from x dom obtain a where a: "a < ?N" "x = ?ks ! a"
      by (metis in_set_conv_nth length_dof_order)
    from y dom obtain b where b: "b < ?N" "y = ?ks ! b"
      by (metis in_set_conv_nth length_dof_order)
    from e a b nth have "a = b" by simp
    with a b show "x = y" by simp
  qed
  have card: "card (dom ?m) = ?N"
    using dom dist by (simp add: distinct_card length_dof_order)
  show ?thesis
    using build_nid_component_to_id_result [OF d pos, of self] ran dom inj card nth
    by blast
qed


theorem build_nid_component_to_id_contiguous_witness:
  "distinct (map node_id (grid \<lparr>grid = [\<lparr>node_id = 1, ps = -1, cd = 0\<rparr>], spoint = [7]\<rparr>)
             @ spoint \<lparr>grid = [\<lparr>node_id = 1, ps = -1, cd = 0\<rparr>], spoint = [7]\<rparr>) \<and>
   (\<exists>m self'.
      build_nid_component_to_id init_state
          \<lparr>grid = [\<lparr>node_id = 1, ps = -1, cd = 0\<rparr>], spoint = [7]\<rparr>
        = Inr ((m, 7), self') \<and>
      ran m = {0..<7} \<and> inj_on m (dom m) \<and> card (dom m) = 7)"
proof -
  let ?M = "\<lparr>grid = [\<lparr>node_id = 1, ps = -1, cd = 0\<rparr>], spoint = [7]\<rparr>"
  have h1: "distinct (map node_id (grid ?M) @ spoint ?M)" by simp
  have h2: "0 < length (grid ?M) + length (spoint ?M)" by simp
  have n: "6 * length (grid ?M) + length (spoint ?M) = 7" by simp
  from build_nid_component_to_id_contiguous [OF h1 h2, of init_state]
  show ?thesis unfolding n using h1 by blast
qed

text \<open>
  C3 as stated asks this of every model with distinct grid ids. A scalar point with the id
  of a grid point overwrites the key \<open>(nid, 1)\<close>: for one grid point 1 and one scalar point
  1 the count is 7, and no key has the index 0.
\<close>

theorem build_nid_component_to_id_shared_id:
  "\<not> isl (build_nid_component_to_id init_state
             \<lparr>grid = [\<lparr>node_id = 1, ps = -1, cd = 0\<rparr>], spoint = [1]\<rparr>) \<and>
   snd (fst (projr (build_nid_component_to_id init_state
             \<lparr>grid = [\<lparr>node_id = 1, ps = -1, cd = 0\<rparr>], spoint = [1]\<rparr>))) = 7 \<and>
   0 \<notin> ran (fst (fst (projr (build_nid_component_to_id init_state
             \<lparr>grid = [\<lparr>node_id = 1, ps = -1, cd = 0\<rparr>], spoint = [1]\<rparr>))))"
  by (auto simp: build_nid_component_to_id_def set_eq_int_def grid_ps_def set_grid_dofs_def
        Let_def ran_def split: if_splits)

lemma build_nid_component_to_id_fails_iff:
  "isl (build_nid_component_to_id self model) \<longleftrightarrow> grid model = [] \<and> spoint model = []"
proof -
  have a: "fst (case grid_loop (grid model) 0 Map.empty self of
             (i1, m1, self1) \<Rightarrow>
               (if length (spoint model) \<noteq> 0 then spoint_loop (sort (spoint model)) i1 m1
                else (i1, m1)))
      = 6 * length (grid model) + length (spoint model)"
    using fst_grid_loop [of "grid model" 0 Map.empty self]
    by (auto simp: case_prod_beta spoint_loop_fst)
  show ?thesis
    unfolding build_nid_component_to_id_def Let_def set_eq_int_def
    using a by (auto simp: case_prod_beta)
qed

text \<open>
  C8. The claim has the indexer fail when a grid point refers to a coordinate system other
  than the basic one. The source tests \<^verbatim>\<open>set(model.grid.cd) == 0\<close>, which never holds, so
  a grid point with \<open>cd = 1\<close> is indexed like any other: the call returns 6 indices.
\<close>

theorem build_nid_component_to_id_cd_unchecked:
  "\<not> isl (build_nid_component_to_id init_state
             \<lparr>grid = [\<lparr>node_id = 1, ps = -1, cd = 1\<rparr>], spoint = []\<rparr>) \<and>
   snd (fst (projr (build_nid_component_to_id init_state
             \<lparr>grid = [\<lparr>node_id = 1, ps = -1, cd = 1\<rparr>], spoint = []\<rparr>))) = 6 \<and>
   fst (fst (projr (build_nid_component_to_id init_state
             \<lparr>grid = [\<lparr>node_id = 1, ps = -1, cd = 1\<rparr>], spoint = []\<rparr>))) (1, 1) = Some 0"
  by (simp add: build_nid_component_to_id_def set_eq_int_def grid_ps_def set_grid_dofs_def
        Let_def)

subsection \<open>The linear solve\<close>

lemma fold_max_const: "\<forall>x\<in>set xs. x = a \<Longrightarrow> fold max xs (a::real) = a"
  by (induction xs) simp_all

lemma fold_min_const: "\<forall>x\<in>set xs. x = a \<Longrightarrow> fold min xs (a::real) = a"
  by (induction xs) simp_all

lemma no_load_check_equal:
  assumes "F \<noteq> []" "hd F = 0" "\<forall>x\<in>set F. x = hd F"
  shows "no_load_check F = Inl (AssertionError ''no load is applied...'')"
proof -
  have t: "\<forall>x\<in>set (tl F). x = hd F"
    using assms(1,3) by (cases F) simp_all
  have "py_max F = hd F" "py_min F = hd F"
    using t by (simp_all add: py_max_def py_min_def fold_max_const fold_min_const)
  then show ?thesis using assms(1,2) by (simp add: no_load_check_def)
qed

text \<open>
  C10. Whatever the stiffness matrix and the solver, a load vector whose first entry is
  0.0 and whose entries are all equal makes \<^verbatim>\<open>_solve\<close> fail with the assertion
  'no load is applied...' before any linear solve.
\<close>

theorem Solver_solve_no_load:
  assumes "F \<noteq> []" "hd F = 0" "\<forall>x\<in>set F. x = hd F"
  shows "Solver_solve solve IDtoNidComponents K F dofs
           = Inl (AssertionError ''no load is applied...'')"
  using no_load_check_equal [OF assms] by (simp add: Solver_solve_def)

theorem Solver_solve_no_load_witness:
  "[0, 0] \<noteq> ([] :: real list) \<and> hd [0, 0 :: real] = 0 \<and>
   cramer_solve [[1, 0], [0, 1]] [0, 0] = Inr [0, 0] \<and>
   Solver_solve cramer_solve [0 \<mapsto> (1, 1), 1 \<mapsto> (1, 2)] [[1, 0], [0, 1]] [0, 0] [0, 1]
     = Inl (AssertionError ''no load is applied...'')"
  using Solver_solve_no_load [of "[0, 0]" cramer_solve "[0 \<mapsto> (1, 1), 1 \<mapsto> (1, 2)]"
          "[[1, 0], [0, 1]]" "[0, 1]"]
  by simp


lemma find_failed_result:
  assumes "\<forall>iu\<in>set dofs. ids iu \<noteq> None"
      and "i + length dofs \<le> length K"
      and "\<forall>r<length K. r < length (K ! r)"
  shows "find_failed ids K i dofs failed faileds =
           Inr (failed @ map (\<lambda>(r, iu). the (ids iu))
                           (filter (\<lambda>(r, iu). K ! r ! r = 0) (zip [i..<i + length dofs] dofs)),
                faileds @ filter (\<lambda>r. K ! r ! r = 0) [i..<i + length dofs])"
  using assms
proof (induction dofs arbitrary: i failed faileds)
  case Nil
  then show ?case by simp
next
  case (Cons iu dofs)
  obtain nid dof where id: "ids iu = Some (nid, dof)"
    using Cons.prems(1) by fastforce
  have i: "i < length K" "i < length (K ! i)"
    using Cons.prems(2,3) by simp_all
  have u: "[i..<i + length (iu # dofs)] = i # [Suc i..<Suc i + length dofs]"
    by (subst upt_conv_Cons) simp_all
  have IH: "find_failed ids K (Suc i) dofs f1 f2 =
           Inr (f1 @ map (\<lambda>(r, iu). the (ids iu))
                        (filter (\<lambda>(r, iu). K ! r ! r = 0) (zip [Suc i..<Suc i + length dofs] dofs)),
                f2 @ filter (\<lambda>r. K ! r ! r = 0) [Suc i..<Suc i + length dofs])" for f1 f2
    using Cons.IH [of "Suc i" f1 f2] Cons.prems by simp
  show ?case
    unfolding u using id i by (simp add: mat_get_def IH)
qed

lemma find_failed_rows:
  assumes "\<forall>iu\<in>set dofs. ids iu \<noteq> None"
      and "length dofs = n" "length K = n" "\<forall>row\<in>set K. length row = n"
  shows "find_failed ids K 0 dofs [] [] =
           Inr (map (\<lambda>i. the (ids (dofs ! i))) (zero_pivots K n), zero_pivots K n)"
proof -
  have r: "\<forall>r<length K. r < length (K ! r)"
    using assms(3,4) by simp
  have z: "zip [0..<n] dofs = map (\<lambda>i. (i, dofs ! i)) [0..<n]"
    using assms(2) by (intro nth_equalityI) simp_all
  have "map (\<lambda>(r, iu). the (ids iu)) (filter (\<lambda>(r, iu). K ! r ! r = 0) (zip [0..<n] dofs))
      = map (\<lambda>i. the (ids (dofs ! i))) (zero_pivots K n)"
    unfolding z zero_pivots_def by (simp add: filter_map comp_def)
  then show ?thesis
    using find_failed_result [OF assms(1) _ r, of 0 "[]" "[]"] assms(2,3)
    by (simp add: zero_pivots_def)
qed

lemma kept_rows_complement:
  "filter (\<lambda>i. i \<notin> set (zero_pivots K n)) [0..<n] = kept_rows K n"
  unfolding kept_rows_def by (rule filter_cong) (auto simp: zero_pivots_def)

lemma fold_set_items:
  assumes "distinct ilist" "length vs = length ilist" "\<forall>i\<in>set ilist. i < length U"
  shows "length (fold (\<lambda>(i, v) U. U[i := v]) (zip ilist vs) U) = length U"
    and "\<forall>k<length ilist. fold (\<lambda>(i, v) U. U[i := v]) (zip ilist vs) U ! (ilist ! k) = vs ! k"
    and "\<forall>i. i \<notin> set ilist \<longrightarrow> fold (\<lambda>(i, v) U. U[i := v]) (zip ilist vs) U ! i = U ! i"
  using assms
proof (induction ilist arbitrary: vs U)
  case Nil
  { case 1 then show ?case by simp }
  { case 2 then show ?case by simp }
  { case 3 then show ?case by simp }
next
  case (Cons a ilist)
  { case 1
    then obtain v vs' where vs: "vs = v # vs'" by (cases vs) auto
    with 1 Cons.IH(1) [of vs' "U[a := v]"] show ?case by simp }
  { case 2
    then obtain v vs' where vs: "vs = v # vs'" by (cases vs) auto
    have l: "length vs' = length ilist" "distinct ilist" "\<forall>i\<in>set ilist. i < length (U[a := v])"
      using 2 vs by simp_all
    show ?case
    proof (intro allI impI)
      fix k assume k: "k < length (a # ilist)"
      show "fold (\<lambda>(i, v) U. U[i := v]) (zip (a # ilist) vs) U ! ((a # ilist) ! k) = vs ! k"
      proof (cases k)
        case 0
        have "a \<notin> set ilist" using 2 by simp
        then show ?thesis
          using Cons.IH(3) [OF l(2) l(1) l(3)] 0 vs 2 by simp
      next
        case (Suc k')
        then show ?thesis
          using Cons.IH(2) [OF l(2) l(1) l(3)] k vs by simp
      qed
    qed }
  { case 3
    then obtain v vs' where vs: "vs = v # vs'" by (cases vs) auto
    have l: "length vs' = length ilist" "distinct ilist" "\<forall>i\<in>set ilist. i < length (U[a := v])"
      using 3 vs by simp_all
    show ?case
      using Cons.IH(3) [OF l(2) l(1) l(3)] vs by auto }
qed


lemma kept_rows_props:
  "distinct (kept_rows K n)" "\<forall>i\<in>set (kept_rows K n). i < n"
  "set (kept_rows K n) \<inter> set (zero_pivots K n) = {}"
  by (auto simp: kept_rows_def zero_pivots_def)

lemma Solver_solve_recover:
  assumes sq: "length K = n" "\<forall>row\<in>set K. length row = n"
      and len: "length F = n" "length dofs = n"
      and ids: "\<forall>iu\<in>set dofs. ids iu \<noteq> None"
      and load: "no_load_check F = Inr ()"
      and fail: "solve K F = Inl e"
  shows "Solver_solve solve ids K F dofs =
           (case solve (reduced_K K (kept_rows K n)) (reduced_F F (kept_rows K n)) of
              Inl e' \<Rightarrow> Inl e'
            | Inr U2 \<Rightarrow> np_set_items (replicate n 0) (kept_rows K n) U2)"
proof -
  let ?il = "kept_rows K n"
  have t1: "np_take K ?il = Inr (map (\<lambda>i. K ! i) ?il)"
    using kept_rows_props(2) [of K n] sq(1) by (simp add: np_take_def list_all_iff)
  have t2: "np_take_cols (map (\<lambda>i. K ! i) ?il) ?il = Inr (reduced_K K ?il)"
    using kept_rows_props(2) [of K n] sq
    by (simp add: np_take_cols_def list_all_iff reduced_K_def)
  have t3: "np_take F ?il = Inr (reduced_F F ?il)"
    using kept_rows_props(2) [of K n] len(1) by (simp add: np_take_def list_all_iff reduced_F_def)
  have il: "filter (\<lambda>i. i \<notin> set (zero_pivots K n)) [0..<length dofs] = ?il"
    using kept_rows_complement [of K n] len(2) by simp
  show ?thesis
  proof (cases "solve (reduced_K K ?il) (reduced_F F ?il)")
    case (Inl e')
    then show ?thesis
      unfolding Solver_solve_def
      by (simp add: load fail find_failed_rows [OF ids len(2) sq] il t1 t2 t3 Let_def)
  next
    case (Inr U2)
    then show ?thesis
      unfolding Solver_solve_def
      by (simp add: load fail find_failed_rows [OF ids len(2) sq] il t1 t2 t3 Let_def len(1))
  qed
qed

text \<open>
  C1, as amended. Let \<open>K\<close> be \<open>n \<times> n\<close>, \<open>F\<close> and \<open>dofs\<close> of length \<open>n\<close>, every entry of
  \<open>dofs\<close> known to \<^verbatim>\<open>IDtoNidComponents\<close>, and let \<open>F\<close> pass the no-load check. If the direct
  solve fails, some pivot is exactly zero, and the solve of the reduced system succeeds
  with \<open>U2\<close>, then \<^verbatim>\<open>_solve\<close> finds exactly the rows \<open>i\<close> with \<open>K[i, i] = 0\<close>, solves the system
  without those rows and columns, and returns \<open>U\<close> of length \<open>n\<close> that is 0 at every removed
  row and \<open>U2\<close> at the kept rows.
\<close>

theorem Solver_solve_autospc:
  assumes sq: "length K = n" "\<forall>row\<in>set K. length row = n"
      and len: "length F = n" "length dofs = n"
      and ids: "\<forall>iu\<in>set dofs. ids iu \<noteq> None"
      and load: "no_load_check F = Inr ()"
      and fail: "solve K F = Inl e"
      and zero: "\<exists>i<n. K ! i ! i = 0"
      and red: "solve (reduced_K K (kept_rows K n)) (reduced_F F (kept_rows K n)) = Inr U2"
               "length U2 = length (kept_rows K n)"
  shows "find_failed ids K 0 dofs [] [] =
           Inr (map (\<lambda>i. the (ids (dofs ! i))) (zero_pivots K n), zero_pivots K n) \<and>
         set (zero_pivots K n) = {i. i < n \<and> K ! i ! i = 0} \<and>
         (\<exists>U. Solver_solve solve ids K F dofs = Inr U \<and> length U = n \<and>
              (\<forall>i\<in>set (zero_pivots K n). U ! i = 0) \<and>
              (\<forall>k<length (kept_rows K n). U ! (kept_rows K n ! k) = U2 ! k))"
proof -
  let ?il = "kept_rows K n"
  let ?U = "fold (\<lambda>(i, v) U. U[i := v]) (zip ?il U2) (replicate n 0)"
  have b: "\<forall>i\<in>set ?il. i < length (replicate n (0::real))"
    using kept_rows_props(2) [of K n] by simp
  have s: "Solver_solve solve ids K F dofs = Inr ?U"
    using Solver_solve_recover [where solve = solve, OF sq len ids load fail] red b
    by (simp add: np_set_items_def list_all_iff)
  have l: "length ?U = n"
    using fold_set_items(1) [OF kept_rows_props(1) red(2) b] by simp
  have k: "\<forall>k<length ?il. ?U ! (?il ! k) = U2 ! k"
    using fold_set_items(2) [OF kept_rows_props(1) red(2) b] .
  have z: "\<forall>i\<in>set (zero_pivots K n). ?U ! i = 0"
  proof
    fix i assume i: "i \<in> set (zero_pivots K n)"
    then have "i \<notin> set ?il" using kept_rows_props(3) [of K n] by blast
    moreover have "i < n" using i by (simp add: zero_pivots_def)
    ultimately show "?U ! i = 0"
      using fold_set_items(3) [OF kept_rows_props(1) red(2) b] by simp
  qed
  have zs: "set (zero_pivots K n) = {i. i < n \<and> K ! i ! i = 0}"
    by (auto simp: zero_pivots_def)
  show ?thesis
    using find_failed_rows [OF ids len(2) sq] zs s l z k by blast
qed

theorem Solver_solve_autospc_witness:
  "no_load_check [0, 4] = Inr () \<and>
   cramer_solve [[0, 0], [0, 2]] [0, 4] = Inl LinAlgError \<and>
   cramer_solve (reduced_K [[0, 0], [0, 2]] (kept_rows [[0, 0], [0, 2]] 2))
                (reduced_F [0, 4] (kept_rows [[0, 0], [0, 2]] 2)) = Inr [2] \<and>
   Solver_solve cramer_solve [0 \<mapsto> (1, 1), 1 \<mapsto> (1, 2)] [[0, 0], [0, 2]] [0, 4] [0, 1]
     = Inr [0, 2]"
proof -
  let ?K = "[[0, 0], [0, 2 :: real]]"
  let ?ids = "[0 \<mapsto> (1, 1), 1 \<mapsto> (1 :: int, 2 :: int)] :: nat \<rightharpoonup> int \<times> int"
  have kr: "kept_rows ?K 2 = [1]"
    by (simp add: kept_rows_def upt_rec)
  have zp: "zero_pivots ?K 2 = [0]"
    by (simp add: zero_pivots_def upt_rec)
  have h1: "length ?K = 2" "\<forall>row\<in>set ?K. length row = 2" by simp_all
  have h2: "length [0, 4 :: real] = 2" "length [0, 1 :: nat] = 2" by simp_all
  have h3: "\<forall>iu\<in>set [0, 1 :: nat]. ?ids iu \<noteq> None" by simp
  have h4: "no_load_check [0, 4] = Inr ()"
    by (simp add: no_load_check_def py_max_def py_min_def)
  have h5: "cramer_solve ?K [0, 4] = Inl LinAlgError" by simp
  have h6: "\<exists>i<2. ?K ! i ! i = 0" by (rule exI [of _ 0]) simp
  have h7: "cramer_solve (reduced_K ?K (kept_rows ?K 2)) (reduced_F [0, 4] (kept_rows ?K 2))
              = Inr [2]"
    by (simp add: kr reduced_K_def reduced_F_def)
  have h8: "length [2 :: real] = length (kept_rows ?K 2)" by (simp add: kr)
  from Solver_solve_autospc [where solve = cramer_solve, OF h1 h2 h3 h4 h5 h6 h7 h8]
  obtain U where U: "Solver_solve cramer_solve ?ids ?K [0, 4] [0, 1] = Inr U" "length U = 2"
      "\<forall>i\<in>set (zero_pivots ?K 2). U ! i = 0"
      "\<forall>k<length (kept_rows ?K 2). U ! (kept_rows ?K 2 ! k) = [2] ! k"
    by blast
  have "U ! 0 = 0" "U ! 1 = 2"
    using U(3,4) by (simp_all add: kr zp)
  with U(2) have "U = [0, 2]"
    by (intro nth_equalityI) (auto simp: less_Suc_eq numeral_2_eq_2)
  with U(1) h4 h5 h7 show ?thesis by simp
qed

text \<open>
  C1 as stated asks for the recovery whenever the direct solve fails and a pivot is zero.
  For the zero load vector the assertion comes first: the matrix below is singular with a
  zero pivot, and \<^verbatim>\<open>_solve\<close> raises instead of returning a vector.
\<close>

theorem Solver_solve_zero_load_singular:
  "cramer_solve [[0, 0], [0, 2]] [0, 0] = Inl LinAlgError \<and>
   [[0, 0], [0, 2 :: real]] ! 0 ! 0 = 0 \<and>
   Solver_solve cramer_solve [0 \<mapsto> (1, 1), 1 \<mapsto> (1, 2)] [[0, 0], [0, 2]] [0, 0] [0, 1]
     = Inl (AssertionError ''no load is applied...'')"
  by (simp add: Solver_solve_def no_load_check_def py_max_def py_min_def)

text \<open>The recovery is not repeated: a failure of the second solve is the result.\<close>

lemma Solver_solve_no_second_retry:
  assumes sq: "length K = n" "\<forall>row\<in>set K. length row = n"
      and len: "length F = n" "length dofs = n"
      and ids: "\<forall>iu\<in>set dofs. ids iu \<noteq> None"
      and load: "no_load_check F = Inr ()"
      and fail: "solve K F = Inl e"
      and red: "solve (reduced_K K (kept_rows K n)) (reduced_F F (kept_rows K n)) = Inl e'"
  shows "Solver_solve solve ids K F dofs = Inl e'"
  using Solver_solve_recover [where solve = solve, OF sq len ids load fail] red by simp

subsection \<open>The static solution\<close>

lemma mat_set_frame:
  assumes "mat_set K i j a = Inr K'"
  shows "length K' = length K" "\<And>r. length (K' ! r) = length (K ! r)"
        "\<And>r c. mpc_target K (i, j, a) \<noteq> Some (r, c) \<Longrightarrow> K' ! r ! c = K ! r ! c"
proof -
  obtain r0 c0 where r0: "np_index (length K) i = Some r0"
      and c0: "np_index (length (K ! r0)) j = Some c0"
      and K': "K' = K[r0 := (K ! r0)[c0 := a]]"
    using assms by (auto simp: mat_set_def split: option.splits)
  have r0l: "r0 < length K"
    using r0 by (auto simp: np_index_def split: if_splits)
  show "length K' = length K" by (simp add: K')
  show "length (K' ! r) = length (K ! r)" for r
    using r0l by (cases "r = r0") (simp_all add: K')
  show "K' ! r ! c = K ! r ! c" if "mpc_target K (i, j, a) \<noteq> Some (r, c)" for r c
  proof -
    have "\<not> (r = r0 \<and> c = c0)"
      using that r0 c0 by (auto simp: mpc_target_def)
    then show ?thesis
      using r0l by (cases "r = r0") (auto simp: K')
  qed
qed

lemma mpc_target_dims:
  assumes "length K' = length K" "\<And>r. length (K' ! r) = length (K ! r)"
  shows "mpc_target K' t = mpc_target K t"
  using assms by (simp add: mpc_target_def split: option.splits)

lemma mpc_loop_frame:
  assumes "mpc_loop ts K = Inr K'"
      and "\<forall>t\<in>set ts. mpc_target K t \<noteq> Some (r, c)"
  shows "K' ! r ! c = K ! r ! c"
  using assms
proof (induction ts arbitrary: K)
  case Nil
  then show ?case by simp
next
  case (Cons t ts)
  obtain i j a where t: "t = (i, j, a)" by (cases t) auto
  from Cons.prems(1) obtain K1 where K1: "mat_set K i j a = Inr K1" and rest: "mpc_loop ts K1 = Inr K'"
    by (auto simp: t split: sum.splits)
  have same: "mpc_target K1 u = mpc_target K u" for u
    using mat_set_frame(1,2) [OF K1] by (rule mpc_target_dims)
  have "K' ! r ! c = K1 ! r ! c"
    using Cons.IH [OF rest] Cons.prems(2) same by simp
  also have "\<dots> = K ! r ! c"
    using mat_set_frame(3) [OF K1] Cons.prems(2) t by simp
  finally show ?case .
qed

text \<open>
  C7, as amended. When \<^verbatim>\<open>solve_sol_101\<close> returns, \<^verbatim>\<open>Fg\<close> is unchanged, and \<^verbatim>\<open>Kgg\<close> is
  unchanged except at the entries \<open>[i, j]\<close> of the MPC triples \<open>(iUm, jUm, Um)\<close>, which the
  method overwrites with the coefficient; without MPC triples \<^verbatim>\<open>Kgg\<close> is unchanged.
\<close>

theorem solve_sol_101_frame:
  assumes "solve_sol_101 solve reverse_dict self nidComponentToID Kgg Fg = Inr (Ua1, Kgg1, Fg1)"
  shows "Fg1 = Fg \<and>
         (\<exists>iUm1 jUm1 Um1. iUm self = Some iUm1 \<and> jUm self = Some jUm1 \<and> Um self = Some Um1 \<and>
            mpc_loop (zip iUm1 (zip jUm1 Um1)) Kgg = Inr Kgg1 \<and>
            (zip iUm1 (zip jUm1 Um1) = [] \<longrightarrow> Kgg1 = Kgg) \<and>
            (\<forall>r c. (\<forall>t\<in>set (zip iUm1 (zip jUm1 Um1)). mpc_target Kgg t \<noteq> Some (r, c))
                   \<longrightarrow> Kgg1 ! r ! c = Kgg ! r ! c))"
proof -
  from assms obtain iUm1 jUm1 Um1 where m: "iUm self = Some iUm1" "jUm self = Some jUm1"
      "Um self = Some Um1"
    by (auto simp: solve_sol_101_def split: option.splits)
  from assms m have l: "mpc_loop (zip iUm1 (zip jUm1 Um1)) Kgg = Inr Kgg1" and f: "Fg1 = Fg"
    by (auto simp: solve_sol_101_def Let_def split: option.splits sum.splits)
  have e: "zip iUm1 (zip jUm1 Um1) = [] \<longrightarrow> Kgg1 = Kgg"
    using l by auto
  show ?thesis
    using m l f e mpc_loop_frame [OF l] by blast
qed


theorem solve_sol_101_frame_witness:
  "solve_sol_101 cramer_solve (\<lambda>m. Map.empty) (build_dof_sets init_state) Map.empty [[2]] [4]
     = Inr ([2], [[2]], [4]) \<and>
   iUm (build_dof_sets init_state) = Some []"
proof -
  have h: "solve_sol_101 cramer_solve (\<lambda>m. Map.empty) (build_dof_sets init_state) Map.empty
             [[2]] [4] = Inr ([2], [[2]], [4])"
    by (simp add: solve_sol_101_def build_dof_sets_def init_state_def Let_def
          partition_dense_symmetric_def partition_dense_vector_def free_dofs_def np_take_def
          np_take_cols_def Solver_solve_def no_load_check_def)
  from solve_sol_101_frame [OF h] show ?thesis
    using h by (simp add: build_dof_sets_def init_state_def Let_def)
qed

text \<open>
  C7 as stated has every entry of \<^verbatim>\<open>Kgg\<close> unchanged by every call. With one MPC triple
  \<open>(0, 0, 5)\<close> the call on \<open>Kgg = [[1]]\<close> leaves \<open>Kgg = [[5]]\<close>.
\<close>

theorem solve_sol_101_writes_mpc:
  "solve_sol_101 cramer_solve (\<lambda>m. Map.empty)
      (build_dof_sets (init_state\<lparr>iUmp := [0], jUmp := [0], Ump := [5]\<rparr>)) Map.empty [[1]] [1]
     = Inr ([1 / 5], [[5]], [1]) \<and>
   [[5]] \<noteq> [[1 :: real]]"
  by (simp add: solve_sol_101_def build_dof_sets_def init_state_def Let_def
        partition_dense_symmetric_def partition_dense_vector_def free_dofs_def np_take_def
        np_take_cols_def Solver_solve_def no_load_check_def mat_set_def np_index_def)

lemma scatter_loop_fold:
  assumes "\<forall>d\<in>set idx. 0 \<le> d \<and> d < int (length U)" "i + length idx \<le> length vals"
  shows "scatter_loop (U, w) i idx vals
           = Inr (fold (\<lambda>(k, v) U. U[k := v]) (zip (map nat idx) (drop i vals)) U,
                  w @ map nat idx)"
  using assms
proof (induction idx arbitrary: U w i)
  case Nil
  then show ?case by simp
next
  case (Cons d idx)
  have i: "i < length vals" using Cons.prems(2) by simp
  have d: "np_index (length U) d = Some (nat d)"
    using Cons.prems(1) by (simp add: np_index_def)
  have dr: "drop i vals = vals ! i # drop (Suc i) vals"
    using i by (simp add: Cons_nth_drop_Suc)
  have "scatter_loop (U[nat d := vals ! i], w @ [nat d]) (Suc i) idx vals
      = Inr (fold (\<lambda>(k, v) U. U[k := v]) (zip (map nat idx) (drop (Suc i) vals))
               (U[nat d := vals ! i]),
             (w @ [nat d]) @ map nat idx)"
    using Cons.prems by (intro Cons.IH) simp_all
  then show ?case
    using i d by (simp add: dr)
qed

lemma sorted_free:
  "sort (remove_dofs (map int [0..<n]) s) = filter (\<lambda>d. d \<notin> set s) (map int [0..<n])"
proof -
  have "sorted (map int [0..<n])"
    by (simp add: sorted_map)
  then have "sorted (filter (\<lambda>d. d \<notin> set s) (map int [0..<n]))"
    using sorted_filter [of "\<lambda>x. x" "map int [0..<n]"] by simp
  then show ?thesis
    by (simp add: remove_dofs_def sorted_sort_id)
qed

lemma length_free:
  assumes "distinct s" "\<forall>d\<in>set s. 0 \<le> d \<and> d < int n"
  shows "length (filter (\<lambda>d. d \<notin> set s) (map int [0..<n])) = n - length s"
proof -
  let ?all = "map int [0..<n]"
  have dall: "distinct ?all" by (simp add: distinct_map)
  have sub: "set s \<subseteq> set ?all"
  proof
    fix d assume "d \<in> set s"
    then have "0 \<le> d" "d < int n" using assms(2) by auto
    then have "nat d \<in> set [0..<n]" "int (nat d) = d" by auto
    then show "d \<in> set ?all" by (metis image_eqI set_map)
  qed
  have "length (filter (\<lambda>d. d \<in> set s) ?all) = card ({d. d \<in> set s} \<inter> set ?all)"
    using dall by (rule distinct_length_filter)
  also have "{d. d \<in> set s} \<inter> set ?all = set s" using sub by auto
  also have "card (set s) = length s" using assms(1) by (rule distinct_card)
  finally have in_s: "length (filter (\<lambda>d. d \<in> set s) ?all) = length s" .
  have "length (filter (\<lambda>d. d \<in> set s) ?all) + length (filter (\<lambda>d. \<not> d \<in> set s) ?all)
          = length ?all"
    by (rule sum_length_filter_compl)
  with in_s show ?thesis by simp
qed

text \<open>
  C2, as amended. For a DOF count \<open>n\<close>, a list \<open>iUs\<close> of constrained indices in \<open>[0, n)\<close>
  that lists no index twice, with one value in \<open>Us\<close> each, and \<open>n - |iUs|\<close> solved values
  \<open>Ua\<close>, the reconstruction returns \<open>U\<close> of length \<open>n\<close>; the positions that its two loops
  assign are a permutation of \<open>0, \<dots>, n - 1\<close>, so each is written exactly once;
  \<open>U[iUs[k]] = Us[k]\<close> for every \<open>k\<close>; and \<open>U\<close> on the complement of \<open>iUs\<close>, in increasing
  order, is \<open>Ua\<close>.
\<close>

theorem reconstruct_U_exactly_once:
  assumes dist: "distinct iUs1"
      and rng: "\<forall>iu\<in>set iUs1. 0 \<le> iu \<and> iu < int n"
      and lUs: "length Us1 = length iUs1"
      and lUa: "length Ua1 = n - length iUs1"
  shows "\<exists>U w. reconstruct_U n iUs1 Us1 Ua1 = Inr (U, w) \<and> length U = n \<and>
             mset w = mset [0..<n] \<and>
             (\<forall>k<length iUs1. U ! nat (iUs1 ! k) = Us1 ! k) \<and>
             map (\<lambda>d. U ! nat d) (filter (\<lambda>d. d \<notin> set iUs1) (map int [0..<n])) = Ua1"
proof -
  let ?free = "filter (\<lambda>d. d \<notin> set iUs1) (map int [0..<n])"
  let ?step = "\<lambda>(k, v) U. U[k := v]"
  let ?U0 = "replicate n (0::real)"
  let ?U1 = "fold ?step (zip (map nat iUs1) Us1) ?U0"
  let ?U2 = "fold ?step (zip (map nat ?free) Ua1) ?U1"
  let ?w = "map nat iUs1 @ map nat ?free"
  have ds: "distinct (map nat iUs1)"
  proof -
    have "inj_on nat (set iUs1)"
    proof (rule inj_onI)
      fix x y assume x: "x \<in> set iUs1" and y: "y \<in> set iUs1" and e: "nat x = nat y"
      have "0 \<le> x" "0 \<le> y" using x y rng by auto
      with e show "x = y" by (metis int_nat_eq)
    qed
    then show ?thesis using dist by (simp add: distinct_map)
  qed
  have rs: "\<forall>i\<in>set (map nat iUs1). i < length ?U0"
    using rng by auto
  have lU1: "length ?U1 = n"
    using fold_set_items(1) [OF ds _ rs] lUs by simp
  have df: "distinct (map nat ?free)"
    by (auto simp: distinct_map inj_on_def)
  have rf: "\<forall>i\<in>set (map nat ?free). i < length ?U1"
    using lU1 by auto
  have lf: "length Ua1 = length (map nat ?free)"
    using length_free [OF dist rng] lUa by simp
  have s1: "scatter_loop (?U0, []) 0 iUs1 Us1 = Inr (?U1, map nat iUs1)"
  proof -
    have p1: "\<forall>d\<in>set iUs1. 0 \<le> d \<and> d < int (length ?U0)"
      using rng by simp
    have p2: "0 + length iUs1 \<le> length Us1"
      using lUs by simp
    show ?thesis
      using scatter_loop_fold [OF p1 p2, of "[]"] by simp
  qed
  have s2: "scatter_loop (?U1, map nat iUs1) 0 ?free Ua1 = Inr (?U2, ?w)"
  proof -
    have p1: "\<forall>d\<in>set ?free. 0 \<le> d \<and> d < int (length ?U1)"
      unfolding lU1 by auto
    have p2: "0 + length ?free \<le> length Ua1"
      using lf by simp
    show ?thesis
      using scatter_loop_fold [OF p1 p2, of "map nat iUs1"] by simp
  qed
  have rec: "reconstruct_U n iUs1 Us1 Ua1 = Inr (?U2, ?w)"
    by (simp add: reconstruct_U_def Let_def sorted_free s1 s2)
  have lU2: "length ?U2 = n"
    using fold_set_items(1) [OF df lf rf] lU1 by simp
  have apart: "nat (iUs1 ! k) \<notin> set (map nat ?free)" if k: "k < length iUs1" for k
  proof
    have in_s: "iUs1 ! k \<in> set iUs1" using k by simp
    then have nn: "0 \<le> iUs1 ! k" using rng by auto
    assume "nat (iUs1 ! k) \<in> set (map nat ?free)"
    then have "nat (iUs1 ! k) \<in> nat ` set ?free" by (simp only: set_map)
    then obtain d where d: "d \<in> set ?free" "nat (iUs1 ! k) = nat d" by blast
    then have "0 \<le> d" by auto
    with d(2) nn have "d = iUs1 ! k" by (metis int_nat_eq)
    with d(1) in_s show False by simp
  qed
  have wr: "mset ?w = mset [0..<n]"
  proof -
    have "set (map nat iUs1) \<inter> set (map nat ?free) = {}"
    proof (rule ccontr)
      assume "set (map nat iUs1) \<inter> set (map nat ?free) \<noteq> {}"
      then obtain p where p: "p \<in> set (map nat iUs1)" "p \<in> set (map nat ?free)" by blast
      from p(1) obtain k where "k < length iUs1" "p = nat (iUs1 ! k)"
        by (metis in_set_conv_nth length_map nth_map)
      with apart p(2) show False by blast
    qed
    then have dw: "distinct ?w" using ds df by simp
    have "set ?w = set [0..<n]"
    proof
      show "set ?w \<subseteq> set [0..<n]" using rng by auto
    next
      show "set [0..<n] \<subseteq> set ?w"
      proof
        fix p assume p: "p \<in> set [0..<n]"
        show "p \<in> set ?w"
        proof (cases "int p \<in> set iUs1")
          case True
          then have "nat (int p) \<in> set (map nat iUs1)" by (simp only: set_map) (rule imageI)
          then show ?thesis by simp
        next
          case False
          with p have "int p \<in> set ?free" by simp
          then have "nat (int p) \<in> set (map nat ?free)" by (simp only: set_map) (rule imageI)
          then show ?thesis by simp
        qed
      qed
    qed
    with dw show ?thesis
      using set_eq_iff_mset_eq_distinct [of ?w "[0..<n]"] by simp
  qed
  have fixed: "\<forall>k<length iUs1. ?U2 ! nat (iUs1 ! k) = Us1 ! k"
  proof (intro allI impI)
    fix k assume k: "k < length iUs1"
    have "?U2 ! nat (iUs1 ! k) = ?U1 ! nat (iUs1 ! k)"
      using fold_set_items(3) [OF df lf rf] apart [OF k] by simp
    also have "\<dots> = Us1 ! k"
      using fold_set_items(2) [OF ds _ rs] lUs k by simp
    finally show "?U2 ! nat (iUs1 ! k) = Us1 ! k" .
  qed
  have free: "map (\<lambda>d. ?U2 ! nat d) ?free = Ua1"
  proof (rule nth_equalityI)
    show "length (map (\<lambda>d. ?U2 ! nat d) ?free) = length Ua1" using lf by simp
  next
    fix k assume "k < length (map (\<lambda>d. ?U2 ! nat d) ?free)"
    then have k: "k < length (map nat ?free)" by simp
    then have "?U2 ! (map nat ?free ! k) = Ua1 ! k"
      using fold_set_items(2) [OF df lf rf] by blast
    then show "map (\<lambda>d. ?U2 ! nat d) ?free ! k = Ua1 ! k"
      using k by simp
  qed
  show ?thesis
    using rec lU2 wr fixed free by blast
qed

lemma upt_0_3: "[0..<3] = [0, 1, 2]"
  by (simp add: upt_rec)

lemma upt_0_6: "[0..<6] = [0, 1, 2, 3, 4, 5]"
  by (simp add: upt_rec)

lemma upt_0_12: "[0..<12] = [0, 1, 2, 3, 4, 5, 6, 7, 8, 9, 10, 11]"
  by (simp add: upt_rec)

theorem reconstruct_U_exactly_once_witness:
  "distinct [1 :: int] \<and> reconstruct_U 3 [1] [9] [5, 7] = Inr ([5, 9, 7], [1, 0, 2])"
proof -
  have h1: "distinct [1 :: int]" by simp
  have h2: "\<forall>iu\<in>set [1 :: int]. 0 \<le> iu \<and> iu < int 3" by simp
  have h3: "length [9 :: real] = length [1 :: int]" by simp
  have h4: "length [5, 7 :: real] = 3 - length [1 :: int]" by simp
  from reconstruct_U_exactly_once [OF h1 h2 h3 h4]
  obtain U w where r: "reconstruct_U 3 [1] [9] [5, 7] = Inr (U, w)" and l: "length U = 3"
      and m: "mset w = mset [0..<3]"
      and f: "\<forall>k<length [1 :: int]. U ! nat ([1] ! k) = [9] ! k"
      and c: "map (\<lambda>d. U ! nat d) (filter (\<lambda>d. d \<notin> set [1]) (map int [0..<3])) = [5, 7]"
    by (elim exE conjE)
  have e: "reconstruct_U 3 [1] [9] [5, 7] = Inr ([5, 9, 7], [1, 0, 2])"
    unfolding reconstruct_U_def Let_def sorted_free
    by (simp add: upt_0_3 np_index_def eval_nat_numeral)
  from r e h1 show ?thesis by simp
qed

text \<open>
  C2 as stated asks this of every static case. The list \<open>iUs\<close> is \<open>iUsb + iUsg\<close>, and a
  component that is constrained both by the PS field of its grid point and by an SPC card
  is listed in both: \<^verbatim>\<open>apply_SPCs\<close> looks for the index in \<^verbatim>\<open>iUsb\<close> only. For one grid point
  with \<open>ps = 1\<close> and an SPC on its component 1, \<open>iUs = [0, 0]\<close>, and the reconstruction
  assigns position 0 twice.
\<close>

theorem reconstruct_U_repeated_index:
  "map_sum id (\<lambda>self. (iUs (build_dof_sets self), Us (build_dof_sets self)))
     (spc_component
        (snd (projr (build_nid_component_to_id init_state
                       \<lparr>grid = [\<lparr>node_id = 1, ps = 1, cd = 0\<rparr>], spoint = []\<rparr>)))
        (fst (fst (projr (build_nid_component_to_id init_state
                       \<lparr>grid = [\<lparr>node_id = 1, ps = 1, cd = 0\<rparr>], spoint = []\<rparr>))))
        (1, 1))
     = Inr (Some [0, 0], Some [0, 0]) \<and>
   reconstruct_U 6 [0, 0] [0, 0] [1, 2, 3, 4, 5]
     = Inr ([0, 1, 2, 3, 4, 5], [0, 0, 1, 2, 3, 4, 5]) \<and>
   mset [0, 0, 1, 2, 3, 4, 5] \<noteq> mset [0..<6]"
proof -
  have a: "build_nid_component_to_id init_state
             \<lparr>grid = [\<lparr>node_id = 1, ps = 1, cd = 0\<rparr>], spoint = []\<rparr>
           = Inr ((set_grid_dofs Map.empty 1 0, 6),
                  init_state\<lparr>iUsg := [0], Usg := [0], mp_index := Some 1\<rparr>)"
    by (simp add: build_nid_component_to_id_def set_eq_int_def grid_ps_def Let_def
          init_state_def)
  have b: "spc_component (init_state\<lparr>iUsg := [0], Usg := [0], mp_index := Some 1\<rparr>)
             (set_grid_dofs Map.empty 1 0) (1, 1)
           = Inr (init_state\<lparr>iUsg := [0], Usg := [0], mp_index := Some 1,
                              iUsb := [0], Usb := [0]\<rparr>)"
    by (simp add: spc_component_def set_grid_dofs_def init_state_def)
  have c: "reconstruct_U 6 [0, 0] [0, 0] [1, 2, 3, 4, 5]
             = Inr ([0, 1, 2, 3, 4, 5], [0, 0, 1, 2, 3, 4, 5])"
    unfolding reconstruct_U_def Let_def sorted_free
    by (simp add: upt_0_6 np_index_def eval_nat_numeral)
  have d: "mset [0, 0, 1, 2, 3, 4, 5] \<noteq> mset [0..<6 :: nat]"
  proof
    assume "mset [0, 0, 1, 2, 3, 4, 5] = mset [0..<6 :: nat]"
    then have "size (mset [0, 0, 1, 2, 3, 4, 5 :: nat]) = size (mset [0..<6 :: nat])" by simp
    then show False by simp
  qed
  have ab: "map_sum id (\<lambda>self. (iUs (build_dof_sets self), Us (build_dof_sets self)))
     (spc_component
        (snd (projr (build_nid_component_to_id init_state
                       \<lparr>grid = [\<lparr>node_id = 1, ps = 1, cd = 0\<rparr>], spoint = []\<rparr>)))
        (fst (fst (projr (build_nid_component_to_id init_state
                       \<lparr>grid = [\<lparr>node_id = 1, ps = 1, cd = 0\<rparr>], spoint = []\<rparr>))))
        (1, 1))
     = Inr (Some [0, 0], Some [0, 0])"
    unfolding a sum.sel fst_conv snd_conv b
    by (simp add: build_dof_sets_def Let_def init_state_def)
  show ?thesis
    by (intro conjI) (rule ab, rule c, rule d)
qed

subsection \<open>The modal solution\<close>

lemma ndofs_unbound: "''ndofs'' \<notin> set solver_module_names"
  by (simp add: solver_module_names_def)

lemma run_sol_103_never_returns: "isl (run_sol_103 sol has_METHOD method_lookup rest)"
  by (simp add: run_sol_103_def ndofs_unbound split: option.splits)

text \<open>
  C4. The claim has \<^verbatim>\<open>run_sol_103\<close> partition \<^verbatim>\<open>Kgg\<close> and \<^verbatim>\<open>Mgg\<close> and solve the eigenproblem.
  For a model with \<^verbatim>\<open>sol = 103\<close> and a case without \<^verbatim>\<open>METHOD\<close> the method raises
  \<^verbatim>\<open>NameError\<close> for \<^verbatim>\<open>ndofs\<close> before it assembles anything, whatever the statements after
  the lookup would do.
\<close>

theorem run_sol_103_name_error:
  "run_sol_103 103 False None (Inr ()) = Inl (NameError ''ndofs'')"
  by (simp add: run_sol_103_def solver_module_names_def)

subsection \<open>The grid point weight generator\<close>

lemma make_gpwg_principal_mass:
  "fst (make_gpwg_principal S Mt_bar Mtr_bar Mr_bar)
     = [triple S Mt_bar ! 0 ! 0, triple S Mt_bar ! 1 ! 1, triple S Mt_bar ! 2 ! 2]"
  by (simp add: make_gpwg_principal_def Let_def)

lemma make_gpwg_principal_cg:
  assumes "k < 3"
  shows "fst (snd (make_gpwg_principal S Mt_bar Mtr_bar Mr_bar)) ! k
     = (if triple S Mt_bar ! k ! k \<noteq> 0
        then map (\<lambda>x. x / (triple S Mt_bar ! k ! k)) (coupling_terms (triple S Mtr_bar) ! k)
        else coupling_terms (triple S Mtr_bar) ! k)"
proof -
  from assms consider "k = 0" | "k = 1" | "k = 2" by linarith
  then show ?thesis
  proof cases
    case 1
    then show ?thesis by (simp add: make_gpwg_principal_def Let_def coupling_terms_def)
  next
    case 2
    then show ?thesis by (simp add: make_gpwg_principal_def Let_def coupling_terms_def)
  next
    case 3
    then show ?thesis by (simp add: make_gpwg_principal_def Let_def coupling_terms_def)
  qed
qed

lemma make_gpwg_ignores_grid_point:
  "make_gpwg eigh eig grid_n positions grid_cp coords grid_point Mgg
     = make_gpwg eigh eig grid_n positions grid_cp coords grid_point' Mgg"
  by (simp add: make_gpwg_def)

lemma make_gpwg_reference_point:
  assumes "make_gpwg eigh eig grid_n positions grid_cp coords grid_point Mgg = Inr w"
  shows "gpw_reference_point w = 2" "map_of positions 2 \<noteq> None"
  using assms
  by (auto simp: make_gpwg_def Let_def
           split: sum.splits option.splits if_splits prod.splits)

text \<open>
  C9. The divisions are guarded as the claim says (lemma \<open>make_gpwg_principal_cg\<close>: a row
  of \<^verbatim>\<open>cg\<close> is the row of coupling terms divided by the principal mass when that is not
  zero, and is not divided when it is zero). The end-to-end scenario fails: the method
  replaces the reference point that it is given by grid point 2. For a model whose only
  grid point is 1, at the origin, with a point mass of 2 on it and 1 as the reference
  point, the method raises \<^verbatim>\<open>KeyError\<close> where the claim has it return the center of gravity
  \<open>(0, 0, 0)\<close> and a zero inertia tensor; this holds for every \<open>eigh\<close>, \<open>eig\<close> and table
  of coordinate systems, and the requested reference point makes no difference (lemma
  \<open>make_gpwg_ignores_grid_point\<close>).
\<close>

theorem make_gpwg_reference_point_overridden:
  "make_gpwg eigh eig 1 [(1, (0, 0, 0))] [0] coords 1
     [[2, 0, 0, 0, 0, 0],
      [0, 2, 0, 0, 0, 0],
      [0, 0, 2, 0, 0, 0],
      [0, 0, 0, 0, 0, 0],
      [0, 0, 0, 0, 0, 0],
      [0, 0, 0, 0, 0, 0]]
   = Inl KeyError"
  by (simp add: make_gpwg_def Let_def)

text \<open>
  With a second grid point 2 at \<open>(1, 0, 0)\<close> that carries no mass, the same request (the
  point mass is on grid point 1, the reference point is grid point 1) returns: the
  reference point stored is 2, and the rows of \<^verbatim>\<open>cg\<close> for the second and third axis are
  \<open>(-1, 0, 0)\<close>, the position of the mass as seen from grid point 2. The eigenvectors of
  the diagonal matrices that arise here are the columns of the identity.
\<close>

lemma mat_T_eye3: "mat_T eye3 = eye3"
  by (simp add: mat_T_def ncols_def eye3_def upt_0_3)

lemma rigid_body_block_eye3:
  "rigid_body_block eye3 [[a, b, c], [d, e, f], [g, h, i]]
     = [[1, 0, 0, a, b, c],
        [0, 1, 0, d, e, f],
        [0, 0, 1, g, h, i],
        [0, 0, 0, 1, 0, 0],
        [0, 0, 0, 0, 1, 0],
        [0, 0, 0, 0, 0, 1]]"
  by (simp add: rigid_body_block_def dot_def ncols_def eye3_def upt_0_3)

lemma eye3_shape: "length eye3 = 3" "list_all (\<lambda>row. length row = 3) eye3"
  by (simp_all add: eye3_def)

lemma triple_eye3:
  "triple eye3 [[a, b, c], [d, e, f], [g, h, i]] = [[a, b, c], [d, e, f], [g, h, i]]"
  by (simp add: triple_def dot_def mat_T_def ncols_def eye3_def upt_0_3)

lemma two_grids_D:
  "rigid_body_loop [0 \<mapsto> eye3] [0, 0] (replicate 12 (replicate 6 0)) 0
     [(- 1, 0, 0), (0, 0, 0)]
   = Inr [[1, 0, 0, 0, 0, 0],
            [0, 1, 0, 0, 0, - 1],
            [0, 0, 1, 0, 1, 0],
            [0, 0, 0, 1, 0, 0],
            [0, 0, 0, 0, 1, 0],
            [0, 0, 0, 0, 0, 1],
            [1, 0, 0, 0, 0, 0],
            [0, 1, 0, 0, 0, 0],
            [0, 0, 1, 0, 0, 0],
            [0, 0, 0, 1, 0, 0],
            [0, 0, 0, 0, 1, 0],
            [0, 0, 0, 0, 0, 1]]"
proof -
  have rep: "replicate 12 (replicate 6 (0::real))
               = replicate 6 [0, 0, 0, 0, 0, 0] @ replicate 6 [0, 0, 0, 0, 0, 0]"
    by (simp add: replicate_add [symmetric] eval_nat_numeral)
  show ?thesis
    unfolding rep by (simp add: Let_def mat_T_eye3 rigid_body_block_eye3 eye3_shape)
qed

lemma two_grids_Mo:
  "triple [[1, 0, 0, 0, 0, 0],
            [0, 1, 0, 0, 0, - 1],
            [0, 0, 1, 0, 1, 0],
            [0, 0, 0, 1, 0, 0],
            [0, 0, 0, 0, 1, 0],
            [0, 0, 0, 0, 0, 1],
            [1, 0, 0, 0, 0, 0],
            [0, 1, 0, 0, 0, 0],
            [0, 0, 1, 0, 0, 0],
            [0, 0, 0, 1, 0, 0],
            [0, 0, 0, 0, 1, 0],
            [0, 0, 0, 0, 0, 1]]
          [[2, 0, 0, 0, 0, 0, 0, 0, 0, 0, 0, 0],
            [0, 2, 0, 0, 0, 0, 0, 0, 0, 0, 0, 0],
            [0, 0, 2, 0, 0, 0, 0, 0, 0, 0, 0, 0],
            [0, 0, 0, 0, 0, 0, 0, 0, 0, 0, 0, 0],
            [0, 0, 0, 0, 0, 0, 0, 0, 0, 0, 0, 0],
            [0, 0, 0, 0, 0, 0, 0, 0, 0, 0, 0, 0],
            [0, 0, 0, 0, 0, 0, 0, 0, 0, 0, 0, 0],
            [0, 0, 0, 0, 0, 0, 0, 0, 0, 0, 0, 0],
            [0, 0, 0, 0, 0, 0, 0, 0, 0, 0, 0, 0],
            [0, 0, 0, 0, 0, 0, 0, 0, 0, 0, 0, 0],
            [0, 0, 0, 0, 0, 0, 0, 0, 0, 0, 0, 0],
            [0, 0, 0, 0, 0, 0, 0, 0, 0, 0, 0, 0]]
   = [[2, 0, 0, 0, 0, 0],
            [0, 2, 0, 0, 0, - 2],
            [0, 0, 2, 0, 2, 0],
            [0, 0, 0, 0, 0, 0],
            [0, 0, 2, 0, 2, 0],
            [0, - 2, 0, 0, 0, 2]]"
proof -
  have MD: "dot [[2, 0, 0, 0, 0, 0, 0, 0, 0, 0, 0, 0],
            [0, 2, 0, 0, 0, 0, 0, 0, 0, 0, 0, 0],
            [0, 0, 2, 0, 0, 0, 0, 0, 0, 0, 0, 0],
            [0, 0, 0, 0, 0, 0, 0, 0, 0, 0, 0, 0],
            [0, 0, 0, 0, 0, 0, 0, 0, 0, 0, 0, 0],
            [0, 0, 0, 0, 0, 0, 0, 0, 0, 0, 0, 0],
            [0, 0, 0, 0, 0, 0, 0, 0, 0, 0, 0, 0],
            [0, 0, 0, 0, 0, 0, 0, 0, 0, 0, 0, 0],
            [0, 0, 0, 0, 0, 0, 0, 0, 0, 0, 0, 0],
            [0, 0, 0, 0, 0, 0, 0, 0, 0, 0, 0, 0],
            [0, 0, 0, 0, 0, 0, 0, 0, 0, 0, 0, 0],
            [0, 0, 0, 0, 0, 0, 0, 0, 0, 0, 0, 0]]
              [[1, 0, 0, 0, 0, 0],
            [0, 1, 0, 0, 0, - 1],
            [0, 0, 1, 0, 1, 0],
            [0, 0, 0, 1, 0, 0],
            [0, 0, 0, 0, 1, 0],
            [0, 0, 0, 0, 0, 1],
            [1, 0, 0, 0, 0, 0],
            [0, 1, 0, 0, 0, 0],
            [0, 0, 1, 0, 0, 0],
            [0, 0, 0, 1, 0, 0],
            [0, 0, 0, 0, 1, 0],
            [0, 0, 0, 0, 0, 1]]
            = [[2, 0, 0, 0, 0, 0],
            [0, 2, 0, 0, 0, - 2],
            [0, 0, 2, 0, 2, 0],
            [0, 0, 0, 0, 0, 0],
            [0, 0, 0, 0, 0, 0],
            [0, 0, 0, 0, 0, 0],
            [0, 0, 0, 0, 0, 0],
            [0, 0, 0, 0, 0, 0],
            [0, 0, 0, 0, 0, 0],
            [0, 0, 0, 0, 0, 0],
            [0, 0, 0, 0, 0, 0],
            [0, 0, 0, 0, 0, 0]]"
    by (simp add: dot_def ncols_def upt_0_6 upt_0_12)
  have DT: "mat_T [[1, 0, 0, 0, 0, 0],
            [0, 1, 0, 0, 0, - 1],
            [0, 0, 1, 0, 1, 0],
            [0, 0, 0, 1, 0, 0],
            [0, 0, 0, 0, 1, 0],
            [0, 0, 0, 0, 0, 1],
            [1, 0, 0, 0, 0, 0],
            [0, 1, 0, 0, 0, 0],
            [0, 0, 1, 0, 0, 0],
            [0, 0, 0, 1, 0, 0],
            [0, 0, 0, 0, 1, 0],
            [0, 0, 0, 0, 0, 1]]
            = [[1, 0, 0, 0, 0, 0, 1, 0, 0, 0, 0, 0],
            [0, 1, 0, 0, 0, 0, 0, 1, 0, 0, 0, 0],
            [0, 0, 1, 0, 0, 0, 0, 0, 1, 0, 0, 0],
            [0, 0, 0, 1, 0, 0, 0, 0, 0, 1, 0, 0],
            [0, 0, 1, 0, 1, 0, 0, 0, 0, 0, 1, 0],
            [0, - 1, 0, 0, 0, 1, 0, 0, 0, 0, 0, 1]]"
    by (simp add: mat_T_def ncols_def upt_0_6)
  show ?thesis
    unfolding triple_def MD DT by (simp add: dot_def ncols_def upt_0_6 upt_0_12)
qed

lemma make_gpwg_two_grids:
  "map_sum id (\<lambda>w. (gpw_reference_point w, gpw_mass w, gpw_cg w, gpw_IS w))
     (make_gpwg (\<lambda>M. Inr ([M ! 0 ! 0, M ! 1 ! 1, M ! 2 ! 2], eye3))
                (\<lambda>M. Inr ([M ! 0 ! 0, M ! 1 ! 1, M ! 2 ! 2], eye3))
        2 [(1, (0, 0, 0)), (2, (1, 0, 0))] [0, 0] [0 \<mapsto> eye3] 1
        [[2, 0, 0, 0, 0, 0, 0, 0, 0, 0, 0, 0],
            [0, 2, 0, 0, 0, 0, 0, 0, 0, 0, 0, 0],
            [0, 0, 2, 0, 0, 0, 0, 0, 0, 0, 0, 0],
            [0, 0, 0, 0, 0, 0, 0, 0, 0, 0, 0, 0],
            [0, 0, 0, 0, 0, 0, 0, 0, 0, 0, 0, 0],
            [0, 0, 0, 0, 0, 0, 0, 0, 0, 0, 0, 0],
            [0, 0, 0, 0, 0, 0, 0, 0, 0, 0, 0, 0],
            [0, 0, 0, 0, 0, 0, 0, 0, 0, 0, 0, 0],
            [0, 0, 0, 0, 0, 0, 0, 0, 0, 0, 0, 0],
            [0, 0, 0, 0, 0, 0, 0, 0, 0, 0, 0, 0],
            [0, 0, 0, 0, 0, 0, 0, 0, 0, 0, 0, 0],
            [0, 0, 0, 0, 0, 0, 0, 0, 0, 0, 0, 0]])
   = Inr (2, [2, 2, 2], [[0, 0, 0], [- 1, 0, 0], [- 1, 0, 0]], zeros3)"
proof -
  have xyz: "fill_xyz (replicate 2 (0, 0, 0)) 0 (sort_key fst [(1 :: int, (0, 0, 0)), (2, (1, 0, 0))])
               = Inr [(0, 0, 0), (1, 0, 0)]"
    by (simp add: eval_nat_numeral)
  have sub: "map (\<lambda>xyz. xyz_sub xyz (1, 0, 0)) [(0, 0, 0), (1, 0, 0)]
               = [(- 1, 0, 0), (0, 0, 0)]"
    by (simp add: xyz_sub_def)
  have l: "length [(0, 0, 0), (1, 0, 0) :: xyz] * 6 = 12"
    by simp
  have ref: "(if (2 :: int) \<in> set [- 1, 0] then Inr (0, 0, 0)
              else case map_of [(1 :: int, (0, 0, 0)), (2, (1, 0, 0))] 2 of
                     None \<Rightarrow> Inl KeyError
                   | Some xyz \<Rightarrow> Inr xyz)
             = (Inr (1, 0, 0) :: error + xyz)"
    by simp
  have pr: "make_gpwg_principal eye3 [[2, 0, 0], [0, 2, 0], [0, 0, 2]]
              [[0, 0, 0], [0, 0, - 2], [0, 2, 0]] [[0, 0, 0], [0, 2, 0], [0, 0, 2]]
            = ([2, 2, 2], [[0, 0, 0], [- 1, 0, 0], [- 1, 0, 0]], zeros3)"
    by (simp add: make_gpwg_principal_def Let_def triple_eye3 zeros3_def)
  show ?thesis
    unfolding make_gpwg_def xyz sum.case Let_def l ref sub two_grids_D
    by (simp add: two_grids_Mo pr)
qed

subsection \<open>The assembly\<close>

lemma square_nth: "square n A \<Longrightarrow> r < n \<Longrightarrow> length (A ! r) = n"
  by (simp add: square_def list_all_length)

lemma symmetric_iff: "symmetric n A \<longleftrightarrow> (\<forall>r<n. \<forall>c<n. A ! r ! c = A ! c ! r)"
  by (auto simp: symmetric_def list_all_iff)

lemma mat_add_at_effect:
  assumes "square N K" "0 \<le> d1" "d1 < int N" "0 \<le> d2" "d2 < int N"
  shows "\<exists>K'. mat_add_at K d1 d2 v = Inr K' \<and> square N K' \<and>
           (\<forall>r<N. \<forall>c<N. K' ! r ! c = K ! r ! c + (if r = nat d1 \<and> c = nat d2 then v else 0))"
proof -
  let ?r = "nat d1" and ?c = "nat d2"
  let ?K' = "K[?r := (K ! ?r)[?c := K ! ?r ! ?c + v]]"
  have len: "length K = N" using assms(1) by (simp add: square_def)
  have r: "?r < N" "np_index (length K) d1 = Some ?r"
    using assms(2,3) len by (simp_all add: np_index_def)
  have rl: "length (K ! ?r) = N" using assms(1) r(1) by (rule square_nth)
  have c: "?c < N" "np_index (length (K ! ?r)) d2 = Some ?c"
    using assms(4,5) rl by (simp_all add: np_index_def)
  have e: "mat_add_at K d1 d2 v = Inr ?K'"
    by (simp add: mat_add_at_def r c)
  have s: "square N ?K'"
    using assms(1) r(1) unfolding square_def list_all_length
    by (auto simp: nth_list_update)
  have v: "?K' ! r0 ! c0 = K ! r0 ! c0 + (if r0 = ?r \<and> c0 = ?c then v else 0)"
    if "r0 < N" "c0 < N" for r0 c0
    using that r(1) c(1) len rl by (auto simp: nth_list_update)
  show ?thesis using e s v by blast
qed


lemma scatter_row_effect:
  assumes step: "\<And>s d1 d2 v. P s \<Longrightarrow> 0 \<le> d1 \<Longrightarrow> d1 < int N \<Longrightarrow> 0 \<le> d2 \<Longrightarrow> d2 < int N \<Longrightarrow>
            \<exists>s'. add s d1 d2 v = Inr s' \<and> P s' \<and>
              (\<forall>r<N. \<forall>c<N. entry s' r c
                 = entry s r c + (if r = nat d1 \<and> c = nat d2 then v else 0))"
      and G: "P G"
      and d1: "0 \<le> d1" "d1 < int N"
      and rest: "\<forall>d\<in>set rest. 0 \<le> d \<and> d < int N"
      and i: "i < length K" "j + length rest \<le> length (K ! i)"
  shows "\<exists>G'. scatter_row add K i d1 j rest G = Inr G' \<and> P G' \<and>
           (\<forall>r<N. \<forall>c<N. entry G' r c = entry G r c +
              (\<Sum>k<length rest. if r = nat d1 \<and> c = nat (rest ! k) then K ! i ! (j + k) else 0))"
  using G rest i(2)
proof (induction rest arbitrary: j G)
  case Nil
  then show ?case by simp
next
  case (Cons d2 rest)
  let ?v = "K ! i ! j"
  let ?f = "\<lambda>r c k. if r = nat d1 \<and> c = nat ((d2 # rest) ! k) then K ! i ! (j + k) else 0"
  have j: "j < length (K ! i)" using Cons.prems(3) by simp
  have g: "mat_get K i j = Inr ?v" using i(1) j by (simp add: mat_get_def)
  have d2: "0 \<le> d2" "d2 < int N" using Cons.prems(2) by simp_all
  have r': "\<forall>d\<in>set rest. 0 \<le> d \<and> d < int N" using Cons.prems(2) by simp
  have j': "Suc j + length rest \<le> length (K ! i)" using Cons.prems(3) by simp
  have split: "(\<Sum>k<length (d2 # rest). ?f r c k)
      = (if r = nat d1 \<and> c = nat d2 then ?v else 0)
        + (\<Sum>k<length rest. if r = nat d1 \<and> c = nat (rest ! k) then K ! i ! (Suc j + k) else 0)"
    for r c
    by (simp add: sum.lessThan_Suc_shift del: sum.lessThan_Suc cong: if_cong)
  show ?case
  proof (cases "\<bar>?v\<bar> > 0")
    case True
    from step [OF Cons.prems(1) d1 d2, of ?v] obtain G1 where G1: "add G d1 d2 ?v = Inr G1" "P G1"
        "\<forall>r<N. \<forall>c<N. entry G1 r c = entry G r c + (if r = nat d1 \<and> c = nat d2 then ?v else 0)"
      by blast
    from Cons.IH [OF G1(2) r' j'] obtain G' where G':
        "scatter_row add K i d1 (Suc j) rest G1 = Inr G'" "P G'"
        "\<forall>r<N. \<forall>c<N. entry G' r c = entry G1 r c +
           (\<Sum>k<length rest. if r = nat d1 \<and> c = nat (rest ! k) then K ! i ! (Suc j + k) else 0)"
      by blast
    have run: "scatter_row add K i d1 j (d2 # rest) G = Inr G'"
      using g True G1(1) G'(1) by simp
    have val: "\<forall>r<N. \<forall>c<N. entry G' r c = entry G r c + (\<Sum>k<length (d2 # rest). ?f r c k)"
      using G1(3) G'(3) by (simp only: split) simp
    show ?thesis using run G'(2) val by blast
  next
    case False
    then have v0: "?v = 0" by simp
    from Cons.IH [OF Cons.prems(1) r' j'] obtain G' where G':
        "scatter_row add K i d1 (Suc j) rest G = Inr G'" "P G'"
        "\<forall>r<N. \<forall>c<N. entry G' r c = entry G r c +
           (\<Sum>k<length rest. if r = nat d1 \<and> c = nat (rest ! k) then K ! i ! (Suc j + k) else 0)"
      by blast
    have run: "scatter_row add K i d1 j (d2 # rest) G = Inr G'"
      using g False G'(1) by simp
    have val: "\<forall>r<N. \<forall>c<N. entry G' r c = entry G r c + (\<Sum>k<length (d2 # rest). ?f r c k)"
      using G'(3) v0 by (simp only: split) simp
    show ?thesis using run G'(2) val by blast
  qed
qed


lemma scatter_rows_effect:
  assumes step: "\<And>s d1 d2 v. P s \<Longrightarrow> 0 \<le> d1 \<Longrightarrow> d1 < int N \<Longrightarrow> 0 \<le> d2 \<Longrightarrow> d2 < int N \<Longrightarrow>
            \<exists>s'. add s d1 d2 v = Inr s' \<and> P s' \<and>
              (\<forall>r<N. \<forall>c<N. entry s' r c
                 = entry s r c + (if r = nat d1 \<and> c = nat d2 then v else 0))"
      and G: "P G"
      and dofs: "\<forall>d\<in>set dofs. 0 \<le> d \<and> d < int N"
      and rest: "\<forall>d\<in>set rest. 0 \<le> d \<and> d < int N"
      and K: "square (length dofs) K"
      and i: "i + length rest \<le> length dofs"
  shows "\<exists>G'. scatter_rows add K dofs i rest G = Inr G' \<and> P G' \<and>
           (\<forall>r<N. \<forall>c<N. entry G' r c = entry G r c +
              (\<Sum>k<length rest. \<Sum>j<length dofs.
                 if r = nat (rest ! k) \<and> c = nat (dofs ! j) then K ! (i + k) ! j else 0))"
  using G rest i
proof (induction rest arbitrary: i G)
  case Nil
  then show ?case by simp
next
  case (Cons d1 rest)
  let ?g = "\<lambda>r c k. \<Sum>j<length dofs.
              if r = nat ((d1 # rest) ! k) \<and> c = nat (dofs ! j) then K ! (i + k) ! j else 0"
  have il: "i < length dofs" using Cons.prems(3) by simp
  have iK: "i < length K" using K il by (simp add: square_def)
  have row: "0 + length dofs \<le> length (K ! i)"
    using square_nth [OF K il] by simp
  have d1: "0 \<le> d1" "d1 < int N" using Cons.prems(2) by simp_all
  have r': "\<forall>d\<in>set rest. 0 \<le> d \<and> d < int N" using Cons.prems(2) by simp
  have i': "Suc i + length rest \<le> length dofs" using Cons.prems(3) by simp
  from scatter_row_effect [where add = add and P = P and entry = entry, OF step Cons.prems(1) d1 dofs iK row]
  obtain G1 where G1: "scatter_row add K i d1 0 dofs G = Inr G1" "P G1"
      "\<forall>r<N. \<forall>c<N. entry G1 r c = entry G r c +
         (\<Sum>j<length dofs. if r = nat d1 \<and> c = nat (dofs ! j) then K ! i ! (0 + j) else 0)"
    by blast
  from Cons.IH [OF G1(2) r' i'] obtain G' where G':
      "scatter_rows add K dofs (Suc i) rest G1 = Inr G'" "P G'"
      "\<forall>r<N. \<forall>c<N. entry G' r c = entry G1 r c +
         (\<Sum>k<length rest. \<Sum>j<length dofs.
            if r = nat (rest ! k) \<and> c = nat (dofs ! j) then K ! (Suc i + k) ! j else 0)"
    by blast
  have split: "(\<Sum>k<length (d1 # rest). ?g r c k)
      = (\<Sum>j<length dofs. if r = nat d1 \<and> c = nat (dofs ! j) then K ! i ! (0 + j) else 0)
        + (\<Sum>k<length rest. \<Sum>j<length dofs.
            if r = nat (rest ! k) \<and> c = nat (dofs ! j) then K ! (Suc i + k) ! j else 0)"
    for r c
    by (simp add: sum.lessThan_Suc_shift del: sum.lessThan_Suc cong: if_cong)
  have run: "scatter_rows add K dofs i (d1 # rest) G = Inr G'"
    using G1(1) G'(1) by simp
  have val: "\<forall>r<N. \<forall>c<N. entry G' r c = entry G r c + (\<Sum>k<length (d1 # rest). ?g r c k)"
    using G1(3) G'(3) by (simp only: split) simp
  show ?case using run G'(2) val by blast
qed

lemma delta_symmetric:
  assumes "symmetric n K"
  shows "(\<Sum>k<n. \<Sum>j<n. if r = nat (dofs ! k) \<and> c = nat (dofs ! j) then K ! k ! j else (0::real))
       = (\<Sum>k<n. \<Sum>j<n. if c = nat (dofs ! k) \<and> r = nat (dofs ! j) then K ! k ! j else 0)"
proof -
  have "(\<Sum>k<n. \<Sum>j<n. if c = nat (dofs ! k) \<and> r = nat (dofs ! j) then K ! k ! j else 0)
      = (\<Sum>j<n. \<Sum>k<n. if c = nat (dofs ! k) \<and> r = nat (dofs ! j) then K ! k ! j else 0)"
    by (rule sum.swap)
  also have "\<dots> = (\<Sum>j<n. \<Sum>k<n. if r = nat (dofs ! j) \<and> c = nat (dofs ! k) then K ! j ! k else 0)"
    using assms by (intro sum.cong refl) (auto simp: symmetric_iff)
  finally show ?thesis by simp
qed

lemma scatter_rows_symmetric:
  assumes step: "\<And>s d1 d2 v. P s \<Longrightarrow> 0 \<le> d1 \<Longrightarrow> d1 < int N \<Longrightarrow> 0 \<le> d2 \<Longrightarrow> d2 < int N \<Longrightarrow>
            \<exists>s'. add s d1 d2 v = Inr s' \<and> P s' \<and>
              (\<forall>r<N. \<forall>c<N. entry s' r c
                 = entry s r c + (if r = nat d1 \<and> c = nat d2 then v else 0))"
      and G: "P G" "\<forall>r<N. \<forall>c<N. entry G r c = entry G c r"
      and el: "element_ok N (K, dofs)"
  shows "\<exists>G'. scatter_rows add K dofs 0 dofs G = Inr G' \<and> P G' \<and>
           (\<forall>r<N. \<forall>c<N. entry G' r c = entry G' c r)"
proof -
  have dofs: "\<forall>d\<in>set dofs. 0 \<le> d \<and> d < int N"
    and K: "square (length dofs) K" and sym: "symmetric (length dofs) K"
    using el by (simp_all add: element_ok_def list_all_iff)
  have i: "0 + length dofs \<le> length dofs" by simp
  from scatter_rows_effect [where add = add and P = P and entry = entry,
        OF step G(1) dofs dofs K i]
  obtain G' where G': "scatter_rows add K dofs 0 dofs G = Inr G'" "P G'"
      "\<forall>r<N. \<forall>c<N. entry G' r c = entry G r c +
         (\<Sum>k<length dofs. \<Sum>j<length dofs.
            if r = nat (dofs ! k) \<and> c = nat (dofs ! j) then K ! (0 + k) ! j else 0)"
    by blast
  have "entry G' r c = entry G' c r" if "r < N" "c < N" for r c
    using G'(3) G(2) that delta_symmetric [OF sym, of r dofs c] by (simp cong: if_cong)
  then show ?thesis using G'(1,2) by blast
qed


lemma mass_add_at_effect:
  assumes "square N (fst MM) \<and> square N (snd MM)" "0 \<le> d1" "d1 < int N" "0 \<le> d2" "d2 < int N"
  shows "\<exists>MM'. mass_add_at MM d1 d2 v = Inr MM' \<and> (square N (fst MM') \<and> square N (snd MM')) \<and>
           (\<forall>r<N. \<forall>c<N. fst MM' ! r ! c
              = fst MM ! r ! c + (if r = nat d1 \<and> c = nat d2 then v else 0))"
proof -
  from assms have a: "square N (fst MM)" and b: "square N (snd MM)" by simp_all
  from mat_add_at_effect [OF a assms(2-5), of v] obtain A where A:
      "mat_add_at (fst MM) d1 d2 v = Inr A" "square N A"
      "\<forall>r<N. \<forall>c<N. A ! r ! c = fst MM ! r ! c + (if r = nat d1 \<and> c = nat d2 then v else 0)"
    by blast
  from mat_add_at_effect [OF b assms(2-5), of v] obtain B where B:
      "mat_add_at (snd MM) d1 d2 v = Inr B" "square N B"
    by blast
  have "mass_add_at MM d1 d2 v = Inr (A, B)"
    by (simp add: mass_add_at_def A(1) B(1))
  then show ?thesis using A(2,3) B(2) by auto
qed

lemma add_stiffness_symmetric:
  assumes "square N Kgg" "symmetric N Kgg" "element_ok N (K, dofs)"
  shows "\<exists>Kgg'. add_stiffness Kgg K dofs = Inr Kgg' \<and> square N Kgg' \<and> symmetric N Kgg'"
proof -
  have s: "\<forall>r<N. \<forall>c<N. Kgg ! r ! c = Kgg ! c ! r"
    using assms(2) by (simp add: symmetric_iff)
  from scatter_rows_symmetric [where add = mat_add_at and P = "square N"
        and entry = "\<lambda>G r c. G ! r ! c" and N = N, OF mat_add_at_effect assms(1) s assms(3)]
  show ?thesis
    unfolding add_stiffness_def symmetric_iff by blast
qed

lemma add_mass_symmetric:
  assumes "square N (fst MM) \<and> square N (snd MM)" "symmetric N (fst MM)" "element_ok N (M, dofs)"
  shows "\<exists>MM'. add_mass MM M dofs = Inr MM' \<and> (square N (fst MM') \<and> square N (snd MM')) \<and>
           symmetric N (fst MM')"
proof -
  have s: "\<forall>r<N. \<forall>c<N. fst MM ! r ! c = fst MM ! c ! r"
    using assms(2) by (simp add: symmetric_iff)
  from scatter_rows_symmetric [where add = mass_add_at
        and P = "\<lambda>MM. square N (fst MM) \<and> square N (snd MM)"
        and entry = "\<lambda>G r c. fst G ! r ! c" and N = N, OF mass_add_at_effect assms(1) s assms(3)]
  show ?thesis
    unfolding add_mass_def symmetric_iff by blast
qed

lemma add_stiffness_all_symmetric:
  assumes "list_all (element_ok N) elems" "square N Kgg" "symmetric N Kgg"
  shows "\<exists>Kgg'. add_stiffness_all elems Kgg = Inr Kgg' \<and> square N Kgg' \<and> symmetric N Kgg'"
  using assms
proof (induction elems arbitrary: Kgg)
  case Nil
  then show ?case by simp
next
  case (Cons el elems)
  obtain K dofs where el: "el = (K, dofs)" by (cases el) auto
  have ok: "element_ok N (K, dofs)" "list_all (element_ok N) elems"
    using Cons.prems(1) el by simp_all
  from add_stiffness_symmetric [OF Cons.prems(2,3) ok(1)] obtain Kgg1 where
    K1: "add_stiffness Kgg K dofs = Inr Kgg1" "square N Kgg1" "symmetric N Kgg1"
    by blast
  from Cons.IH [OF ok(2) K1(2,3)] show ?case
    by (simp add: el K1(1))
qed

lemma add_mass_all_symmetric:
  assumes "list_all (element_ok N) elems" "square N (fst MM) \<and> square N (snd MM)"
          "symmetric N (fst MM)"
  shows "\<exists>MM'. add_mass_all elems MM = Inr MM' \<and> (square N (fst MM') \<and> square N (snd MM')) \<and>
           symmetric N (fst MM')"
  using assms
proof (induction elems arbitrary: MM)
  case Nil
  then show ?case by simp
next
  case (Cons el elems)
  obtain M dofs where el: "el = (M, dofs)" by (cases el) auto
  have ok: "element_ok N (M, dofs)" "list_all (element_ok N) elems"
    using Cons.prems(1) el by simp_all
  from add_mass_symmetric [OF Cons.prems(2,3) ok(1)] obtain MM1 where
    M1: "add_mass MM M dofs = Inr MM1" "square N (fst MM1) \<and> square N (snd MM1)"
        "symmetric N (fst MM1)"
    by blast
  from Cons.IH [OF ok(2) M1(2,3)] show ?case
    by (simp add: el M1(1))
qed

lemma zeros_square: "square N (zeros N N)" and zeros_symmetric: "symmetric N (zeros N N)"
  by (simp_all add: square_def symmetric_iff zeros_def list_all_length)

lemma symmetric_transpose:
  assumes "square N A" "symmetric N A"
  shows "mat_T A = A"
proof (cases "N = 0")
  case True
  then show ?thesis using assms(1) by (simp add: square_def mat_T_def ncols_def)
next
  case False
  have len: "length A = N" using assms(1) by (simp add: square_def)
  have nc: "ncols A = N"
  proof -
    from len False obtain row rest where A: "A = row # rest" by (cases A) auto
    then have "length row = N" using square_nth [OF assms(1), of 0] False by simp
    then show ?thesis by (simp add: ncols_def A)
  qed
  show ?thesis
  proof (rule nth_equalityI)
    show "length (mat_T A) = length A" by (simp add: mat_T_def nc len)
  next
    fix r assume "r < length (mat_T A)"
    then have r: "r < N" by (simp add: mat_T_def nc)
    show "mat_T A ! r = A ! r"
    proof (rule nth_equalityI)
      show "length (mat_T A ! r) = length (A ! r)"
        using r square_nth [OF assms(1) r] by (simp add: mat_T_def nc len)
    next
      fix c assume "c < length (mat_T A ! r)"
      then have c: "c < N" using r by (simp add: mat_T_def nc len)
      show "mat_T A ! r ! c = A ! r ! c"
        using r c assms(2) by (simp add: mat_T_def nc len symmetric_iff)
    qed
  qed
qed

text \<open>
  C5. Starting from the zero matrix, after the scatter-adds of any sequence of element
  contributions with symmetric local matrices over their DOF index lists, \<^verbatim>\<open>Kgg\<close> (by
  \<^verbatim>\<open>add_stiffness\<close>) and \<^verbatim>\<open>Mgg\<close> (by \<^verbatim>\<open>add_mass\<close>) are symmetric: each equals its transpose.
\<close>

theorem assembled_matrices_symmetric:
  assumes "list_all (element_ok N) elems"
  shows "(\<exists>Kgg. add_stiffness_all elems (zeros N N) = Inr Kgg \<and> square N Kgg \<and>
            symmetric N Kgg \<and> mat_T Kgg = Kgg) \<and>
         (\<exists>Mgg Mgg_sparse.
            add_mass_all elems (zeros N N, zeros N N) = Inr (Mgg, Mgg_sparse) \<and> square N Mgg \<and>
            symmetric N Mgg \<and> mat_T Mgg = Mgg)"
proof -
  from add_stiffness_all_symmetric [OF assms zeros_square zeros_symmetric]
  obtain Kgg where K: "add_stiffness_all elems (zeros N N) = Inr Kgg" "square N Kgg"
      "symmetric N Kgg"
    by blast
  have "square N (fst (zeros N N, zeros N N)) \<and> square N (snd (zeros N N, zeros N N))"
       "symmetric N (fst (zeros N N, zeros N N))"
    by (simp_all add: zeros_square zeros_symmetric)
  from add_mass_all_symmetric [OF assms this]
  obtain MM where M: "add_mass_all elems (zeros N N, zeros N N) = Inr MM" "square N (fst MM)"
      "symmetric N (fst MM)"
    by blast
  have "add_mass_all elems (zeros N N, zeros N N) = Inr (fst MM, snd MM)"
    using M(1) by simp
  then show ?thesis
    using K M(2,3) symmetric_transpose [OF K(2,3)] symmetric_transpose [OF M(2,3)] by blast
qed

theorem assembled_matrices_symmetric_witness:
  "list_all (element_ok 2) [([[1, -1], [-1, 1]], [0, 1]), ([[3]], [1])] \<and>
   add_stiffness_all [([[1, -1], [-1, 1]], [0, 1]), ([[3]], [1])] (zeros 2 2)
     = Inr [[1, -1], [-1, 4]] \<and>
   mat_T [[1, -1], [-1, 4]] = [[1, -1], [-1, 4]]"
proof -
  have u: "[0..<2] = [0, 1]" by (simp add: upt_rec)
  have h: "list_all (element_ok 2) [([[1, -1], [-1, 1]], [0, 1]), ([[3]], [1])]"
    by (simp add: element_ok_def square_def symmetric_def u)
  have e: "add_stiffness_all [([[1, -1], [-1, 1]], [0, 1]), ([[3]], [1])] (zeros 2 2)
             = Inr [[1, -1], [-1, 4]]"
    by (simp add: add_stiffness_def mat_get_def mat_add_at_def np_index_def zeros_def
          numeral_2_eq_2)
  from assembled_matrices_symmetric [OF h] e h show ?thesis by auto
qed

end
